theory Spec2Isabelle
  imports Complex_Main
begin

section \<open>Python values held by a settings object\<close>

text \<open>
  The configuration resolver (\<^verbatim>\<open>examples/configs/utils.py\<close>) works on an
  \<^verbatim>\<open>argparse\<close> namespace whose attributes are \<^verbatim>\<open>None\<close>, booleans, integers,
  floats, strings, lists and keyword dictionaries. A finite float is embedded as the real
  number it denotes (NaN and the infinities are not values of this model). A dictionary is
  an association list in insertion order; its keys are strings, as attribute and keyword
  names are.
\<close>

datatype pyval =
    PNone
  | PBool bool
  | PInt int
  | PFloat real
  | PStr string
  | PList "pyval list"
  | PDict "(string \<times> pyval) list"

text \<open>\<^verbatim>\<open>isinstance(val, dict)\<close>, giving the items when it holds.\<close>

fun as_dict :: "pyval \<Rightarrow> (string \<times> pyval) list option" where
  "as_dict (PDict items) = Some items"
| "as_dict _ = None"

text \<open>The number a numeric value denotes: Python compares \<^verbatim>\<open>True == 1 == 1.0\<close> by value.\<close>

fun num_of :: "pyval \<Rightarrow> real option" where
  "num_of (PBool b) = Some (if b then 1 else 0)"
| "num_of (PInt i) = Some (of_int i)"
| "num_of (PFloat r) = Some r"
| "num_of _ = None"

text \<open>
  Python's \<^verbatim>\<open>==\<close> on these values: numbers by value, strings and lists elementwise,
  dictionaries when they have as many keys and every key of the left one is bound to an
  equal value in the right one (the order of insertion does not count).
\<close>

fun py_eq :: "pyval \<Rightarrow> pyval \<Rightarrow> bool"
and py_eq_list :: "pyval list \<Rightarrow> pyval list \<Rightarrow> bool"
and py_eq_items :: "(string \<times> pyval) list \<Rightarrow> (string \<times> pyval) list \<Rightarrow> bool"
and py_eq_lookup :: "string \<Rightarrow> pyval \<Rightarrow> (string \<times> pyval) list \<Rightarrow> bool" where
  "py_eq PNone w = (w = PNone)"
| "py_eq (PStr s) w = (case w of PStr t \<Rightarrow> s = t | _ \<Rightarrow> False)"
| "py_eq (PList xs) w = (case w of PList ys \<Rightarrow> py_eq_list xs ys | _ \<Rightarrow> False)"
| "py_eq (PDict a) w =
     (case w of PDict b \<Rightarrow> length a = length b \<and> py_eq_items a b | _ \<Rightarrow> False)"
| "py_eq v w = (case num_of w of Some y \<Rightarrow> num_of v = Some y | None \<Rightarrow> False)"
| "py_eq_list [] ys = (ys = [])"
| "py_eq_list (x # xs) ys =
     (case ys of [] \<Rightarrow> False | y # ys' \<Rightarrow> py_eq x y \<and> py_eq_list xs ys')"
| "py_eq_items [] b = True"
| "py_eq_items ((k, v) # a) b = (py_eq_lookup k v b \<and> py_eq_items a b)"
| "py_eq_lookup k v [] = False"
| "py_eq_lookup k v ((k', w) # b) = (if k = k' then py_eq v w else py_eq_lookup k v b)"

text \<open>Truthiness, as \<^verbatim>\<open>if config.model:\<close> and \<^verbatim>\<open>bool(...)\<close> take it.\<close>

fun py_bool :: "pyval \<Rightarrow> bool" where
  "py_bool PNone = False"
| "py_bool (PBool b) = b"
| "py_bool (PInt i) = (i \<noteq> 0)"
| "py_bool (PFloat r) = (r \<noteq> 0)"
| "py_bool (PStr s) = (s \<noteq> [])"
| "py_bool (PList xs) = (xs \<noteq> [])"
| "py_bool (PDict items) = (items \<noteq> [])"

text \<open>\<^verbatim>\<open>d[k]\<close> read (\<open>None\<close> when \<^verbatim>\<open>k not in d\<close>) and \<^verbatim>\<open>d[k] = v\<close> on a dictionary.\<close>

fun dict_get :: "(string \<times> pyval) list \<Rightarrow> string \<Rightarrow> pyval option" where
  "dict_get [] k = None"
| "dict_get ((k', v) # d) k = (if k = k' then Some v else dict_get d k)"

fun dict_set :: "(string \<times> pyval) list \<Rightarrow> string \<Rightarrow> pyval \<Rightarrow> (string \<times> pyval) list" where
  "dict_set [] k v = [(k, v)]"
| "dict_set ((k', v') # d) k v = (if k = k' then (k, v) # d else (k', v') # dict_set d k v)"

section \<open>The settings object, errors and outcomes\<close>

text \<open>
  \<^verbatim>\<open>vars(config)\<close>: attribute name to value; an attribute that was never set is
  unbound. Attributes hold their dictionaries by value: no two attributes share one
  dictionary object.
\<close>

type_synonym config = "string \<rightharpoonup> pyval"

text \<open>
  An exception carries what its message is built from: the format string of the source and
  the values interpolated into it, in order.
\<close>

datatype error =
    AttributeError string
  | KeyError pyval
  | TypeError
  | AssertionError string "pyval list"
  | ValueError string "pyval list"
  | IndexError
  | RuntimeError

text \<open>
  The resolver mutates the settings object in place and returns it. A call either returns
  the object or raises; in both cases the object is left in some state, which the outcome
  records.
\<close>

datatype outcome = Return config | Raise error config

fun state_of :: "outcome \<Rightarrow> config" where
  "state_of (Return c) = c"
| "state_of (Raise e c) = c"

fun raised :: "outcome \<Rightarrow> error option" where
  "raised (Return c) = None"
| "raised (Raise e c) = Some e"

text \<open>Sequencing of two statements: an exception of the first one propagates.\<close>

fun and_then :: "outcome \<Rightarrow> (config \<Rightarrow> outcome) \<Rightarrow> outcome" where
  "and_then (Return c) f = f c"
| "and_then (Raise e c) f = Raise e c"

section \<open>\<^verbatim>\<open>populate_config\<close>\<close>

text \<open>
  The inner loop (lines 129 to 133) over the items of a keyword dictionary \<^verbatim>\<open>val\<close> of the
  template. Each iteration reads \<^verbatim>\<open>d_config[key]\<close>: a missing attribute is a
  \<^verbatim>\<open>KeyError\<close>, and a value that is not a dictionary is a \<^verbatim>\<open>TypeError\<close> (from
  \<^verbatim>\<open>in\<close> on \<^verbatim>\<open>None\<close> or a number, from the string index on a string or a list).
\<close>

fun populate_kwargs :: "string \<Rightarrow> pyval \<Rightarrow> bool \<Rightarrow> config \<Rightarrow> (string \<times> pyval) list \<Rightarrow> outcome" where
  "populate_kwargs key val force_compatibility c [] = Return c"
| "populate_kwargs key val force_compatibility c ((kwargs_key, kwargs_val) # rest) =
     (case c key of
        None \<Rightarrow> Raise (KeyError (PStr key)) c
      | Some cur \<Rightarrow>
          (case as_dict cur of
             None \<Rightarrow> Raise TypeError c
           | Some d \<Rightarrow>
               (case dict_get d kwargs_key of
                  None \<Rightarrow>
                    populate_kwargs key val force_compatibility
                      (c(key \<mapsto> PDict (dict_set d kwargs_key kwargs_val))) rest
                | Some old \<Rightarrow>
                    if old = PNone then
                      populate_kwargs key val force_compatibility
                        (c(key \<mapsto> PDict (dict_set d kwargs_key kwargs_val))) rest
                    else if \<not> py_eq old kwargs_val \<and> force_compatibility then
                      Raise (ValueError ''Argument {key}[{kwargs_key}] must be set to {val}''
                               [PStr key, PStr kwargs_key, val]) c
                    else populate_kwargs key val force_compatibility c rest)))"

text \<open>The outer loop (lines 121 to 133) over \<^verbatim>\<open>template.items()\<close>.\<close>

fun populate_items :: "bool \<Rightarrow> config \<Rightarrow> (string \<times> pyval) list \<Rightarrow> outcome" where
  "populate_items force_compatibility c [] = Return c"
| "populate_items force_compatibility c ((key, val) # rest) =
     (case as_dict val of
        None \<Rightarrow>
          (case c key of
             None \<Rightarrow> populate_items force_compatibility (c(key \<mapsto> val)) rest
           | Some old \<Rightarrow>
               if old = PNone then populate_items force_compatibility (c(key \<mapsto> val)) rest
               else if \<not> py_eq old val \<and> force_compatibility then
                 Raise (ValueError ''Argument {key} must be set to {val}'' [PStr key, val]) c
               else populate_items force_compatibility c rest)
      | Some kwargs \<Rightarrow>
          and_then (populate_kwargs key val force_compatibility c kwargs)
            (\<lambda>c'. populate_items force_compatibility c' rest))"

text \<open>
  \<^verbatim>\<open>populate_config(config, template, force_compatibility)\<close>. A template that is
  neither \<^verbatim>\<open>None\<close> nor a dictionary has no \<^verbatim>\<open>items\<close>.
\<close>

fun populate_config :: "config \<Rightarrow> pyval \<Rightarrow> bool \<Rightarrow> outcome" where
  "populate_config c PNone force_compatibility = Return c"
| "populate_config c (PDict items) force_compatibility = populate_items force_compatibility c items"
| "populate_config c template force_compatibility = Raise (AttributeError ''items'') c"

section \<open>Predicates used to state the properties of \<^verbatim>\<open>populate_config\<close>\<close>

text \<open>The test of lines 123 and 130: the key is missing, or bound to \<^verbatim>\<open>None\<close>.\<close>

definition unset :: "pyval option \<Rightarrow> bool" where
  "unset r = (r = None \<or> r = Some PNone)"

text \<open>
  A Python dictionary binds each key once. A template is well formed when its keys are
  distinct and so are the keys of each keyword dictionary in it.
\<close>

definition wf_template :: "(string \<times> pyval) list \<Rightarrow> bool" where
  "wf_template T =
     (distinct (map fst T) \<and>
      list_all (\<lambda>item. case as_dict (snd item) of None \<Rightarrow> True | Some kw \<Rightarrow> distinct (map fst kw)) T)"

text \<open>
  The settings object holds a dictionary under a template key whose value is a non-empty
  keyword dictionary (the comment of line 128: \<^verbatim>\<open>config[key] expected to be a kwarg dict\<close>).
\<close>

definition group_present :: "config \<Rightarrow> string \<times> pyval \<Rightarrow> bool" where
  "group_present c item =
     (case as_dict (snd item) of
        None \<Rightarrow> True
      | Some kw \<Rightarrow> kw = [] \<or> (case c (fst item) of None \<Rightarrow> False | Some cur \<Rightarrow> as_dict cur \<noteq> None))"

definition groups_present :: "config \<Rightarrow> (string \<times> pyval) list \<Rightarrow> bool" where
  "groups_present c T = list_all (group_present c) T"

text \<open>
  \<open>dict_extends d d'\<close>: every key of \<open>d\<close> is a key of \<open>d'\<close>, and a key bound in \<open>d\<close> to a
  value other than \<^verbatim>\<open>None\<close> is bound to the same value in \<open>d'\<close>. \<open>extends c c'\<close> is the
  same for settings objects, where a keyword dictionary is extended in that sense.
\<close>

definition dict_extends :: "(string \<times> pyval) list \<Rightarrow> (string \<times> pyval) list \<Rightarrow> bool" where
  "dict_extends d d' =
     (\<forall>j. case dict_get d j of
            None \<Rightarrow> True
          | Some w \<Rightarrow> if w = PNone then dict_get d' j \<noteq> None else dict_get d' j = Some w)"

definition extends :: "config \<Rightarrow> config \<Rightarrow> bool" where
  "extends c c' =
     (\<forall>k. case c k of
            None \<Rightarrow> True
          | Some w \<Rightarrow>
              if w = PNone then c' k \<noteq> None
              else (case as_dict w of
                      None \<Rightarrow> c' k = Some w
                    | Some d \<Rightarrow> (\<exists>d'. c' k = Some (PDict d') \<and> dict_extends d d')))"

text \<open>
  An item of a template is settled in a settings object when the loop body does nothing
  for it: the key is bound, to a value other than \<^verbatim>\<open>None\<close> unless the template's own
  value is \<^verbatim>\<open>None\<close>.
\<close>

definition settled_kw :: "(string \<times> pyval) list \<Rightarrow> string \<times> pyval \<Rightarrow> bool" where
  "settled_kw d item =
     (case dict_get d (fst item) of None \<Rightarrow> False | Some w \<Rightarrow> w \<noteq> PNone \<or> snd item = PNone)"


text \<open>
  What the loop body leaves under one key: \<open>kwargs_filled kw d d'\<close> relates a keyword
  dictionary before and after the inner loop over \<open>kw\<close>, \<open>item_filled v cur res\<close> the
  binding of a key before and after the item with value \<open>v\<close>.
\<close>

definition kwargs_filled :: "(string \<times> pyval) list \<Rightarrow> (string \<times> pyval) list \<Rightarrow> (string \<times> pyval) list \<Rightarrow> bool" where
  "kwargs_filled kw d d' =
     ((\<forall>j u. (j, u) \<in> set kw \<longrightarrow> dict_get d' j = (if unset (dict_get d j) then Some u else dict_get d j))
      \<and> (\<forall>j. j \<notin> fst ` set kw \<longrightarrow> dict_get d' j = dict_get d j))"

definition item_filled :: "pyval \<Rightarrow> pyval option \<Rightarrow> pyval option \<Rightarrow> bool" where
  "item_filled v cur res =
     (case as_dict v of
        None \<Rightarrow> res = (if unset cur then Some v else cur)
      | Some kw \<Rightarrow>
          if kw = [] then res = cur
          else (\<exists>d d'. cur = Some (PDict d) \<and> res = Some (PDict d') \<and> kwargs_filled kw d d'))"


text \<open>
  Strict mode. A conflict is what lines 125 and 132 test: a key that is bound in the settings
  object (in its keyword dictionary, for a key of a keyword dictionary of the template) to a
  value other than \<^verbatim>\<open>None\<close> that Python's \<^verbatim>\<open>!=\<close> tells from the template's.
\<close>

definition kw_conflict :: "(string \<times> pyval) list \<Rightarrow> string \<times> pyval \<Rightarrow> bool" where
  "kw_conflict d item =
     (case dict_get d (fst item) of None \<Rightarrow> False | Some w \<Rightarrow> w \<noteq> PNone \<and> \<not> py_eq w (snd item))"

definition item_conflict :: "config \<Rightarrow> string \<times> pyval \<Rightarrow> bool" where
  "item_conflict c item =
     (case c (fst item) of
        None \<Rightarrow> False
      | Some cur \<Rightarrow>
          (case as_dict (snd item) of
             None \<Rightarrow> cur \<noteq> PNone \<and> \<not> py_eq cur (snd item)
           | Some kw \<Rightarrow>
               (case as_dict cur of None \<Rightarrow> False | Some d \<Rightarrow> list_ex (kw_conflict d) kw)))"

definition conflict :: "config \<Rightarrow> (string \<times> pyval) list \<Rightarrow> bool" where
  "conflict c T = list_ex (item_conflict c) T"

text \<open>
  The condition in the words of the specification: some key shared by the settings object
  and the template has differing values in the two.
\<close>

definition shared_key_differs :: "config \<Rightarrow> (string \<times> pyval) list \<Rightarrow> bool" where
  "shared_key_differs c T =
     list_ex (\<lambda>item. case c (fst item) of None \<Rightarrow> False | Some cur \<Rightarrow> \<not> py_eq cur (snd item)) T"

section \<open>\<^verbatim>\<open>populate_defaults\<close>\<close>

text \<open>
  The preset tables (\<^verbatim>\<open>dataset_defaults\<close>, \<^verbatim>\<open>split_defaults\<close>,
  \<^verbatim>\<open>algorithm_defaults\<close>, \<^verbatim>\<open>loader_defaults\<close>, \<^verbatim>\<open>model_defaults\<close>,
  \<^verbatim>\<open>scheduler_defaults\<close>) are imported from sibling modules; the resolver takes them
  as they are, so they are a parameter here. Their keys are strings.
\<close>

record presets =
  dataset_defaults :: "(string \<times> pyval) list"
  split_defaults :: "(string \<times> (string \<times> pyval) list) list"
  algorithm_defaults :: "(string \<times> pyval) list"
  loader_defaults :: pyval
  model_defaults :: "(string \<times> pyval) list"
  scheduler_defaults :: "(string \<times> pyval) list"

text \<open>
  \<^verbatim>\<open>table[key]\<close> and \<^verbatim>\<open>key in table\<close> on a table with string keys: a list or a
  dictionary is unhashable (\<^verbatim>\<open>TypeError\<close>), and a value that is not a string equals no
  key of the table.
\<close>

fun hashable :: "pyval \<Rightarrow> bool" where
  "hashable (PList xs) = False"
| "hashable (PDict items) = False"
| "hashable _ = True"

fun as_str :: "pyval \<Rightarrow> string option" where
  "as_str (PStr s) = Some s"
| "as_str _ = None"

definition table_get :: "(string \<times> 'a) list \<Rightarrow> pyval \<Rightarrow> error + 'a" where
  "table_get tbl key =
     (if \<not> hashable key then Inl TypeError
      else case as_str key of
             None \<Rightarrow> Inl (KeyError key)
           | Some s \<Rightarrow> (case map_of tbl s of None \<Rightarrow> Inl (KeyError key) | Some t \<Rightarrow> Inr t))"

definition table_has :: "(string \<times> 'a) list \<Rightarrow> pyval \<Rightarrow> error + bool" where
  "table_has tbl key =
     (if \<not> hashable key then Inl TypeError
      else case as_str key of
             None \<Rightarrow> Inr False
           | Some s \<Rightarrow> Inr (map_of tbl s \<noteq> None))"

text \<open>
  Lines 10 and 11: \<^verbatim>\<open>assert config.<field> is not None, msg\<close>. Reading an attribute
  that was never set is an \<^verbatim>\<open>AttributeError\<close>. Assertions are executed (the interpreter
  does not run with \<^verbatim>\<open>-O\<close>).
\<close>

definition assert_specified :: "string \<Rightarrow> string \<Rightarrow> config \<Rightarrow> outcome" where
  "assert_specified field msg c =
     (case c field of
        None \<Rightarrow> Raise (AttributeError field) c
      | Some v \<Rightarrow> if v \<noteq> PNone then Return c else Raise (AssertionError msg []) c)"

text \<open>Lines 15 to 21, and lines 23 to 29 with the other field.\<close>

definition check_groups_per_batch :: "string \<Rightarrow> string \<Rightarrow> config \<Rightarrow> outcome" where
  "check_groups_per_batch field msg c =
     (case c field of
        None \<Rightarrow> Raise (AttributeError field) c
      | Some v \<Rightarrow>
          if v = PNone then Return (c(field \<mapsto> PInt 1))
          else if \<not> py_eq v (PInt 1) then Raise (ValueError msg [v]) c
          else Return c)"

text \<open>Lines 14 to 29.\<close>

definition validate_from_source_domain :: "config \<Rightarrow> outcome" where
  "validate_from_source_domain c =
     (case c ''groupby_fields'' of
        None \<Rightarrow> Raise (AttributeError ''groupby_fields'') c
      | Some g \<Rightarrow>
          if py_eq g (PList [PStr ''from_source_domain'']) then
            and_then
              (check_groups_per_batch ''n_groups_per_batch''
                 ''from_source_domain was specified for groupby_fields, but n_groups_per_batch was {config.n_groups_per_batch}, when it should be 1.''
                 c)
              (check_groups_per_batch ''unlabeled_n_groups_per_batch''
                 ''from_source_domain was specified for groupby_fields, but unlabeled_n_groups_per_batch was {config.unlabeled_n_groups_per_batch}, when it should be 1.'')
          else Return c)"

text \<open>Lines 31 to 35; \<^verbatim>\<open>config.lr\<close> is read only when the algorithm is DANN.\<close>

definition validate_dann :: "config \<Rightarrow> outcome" where
  "validate_dann c =
     (case c ''algorithm'' of
        None \<Rightarrow> Raise (AttributeError ''algorithm'') c
      | Some a \<Rightarrow>
          if py_eq a (PStr ''DANN'') then
            (case c ''lr'' of
               None \<Rightarrow> Raise (AttributeError ''lr'') c
             | Some lr \<Rightarrow>
                 if lr \<noteq> PNone then
                   Raise (ValueError ''Cannot pass in a value for lr. For DANN, only dann_classifier_lr, dann_featurizer_lr and dann_discriminator_lr are valid learning rate parameters.'' []) c
                 else Return c)
          else Return c)"

text \<open>Lines 10 to 35: everything that runs before the presets are applied.\<close>

definition validations :: "config \<Rightarrow> outcome" where
  "validations c =
     and_then (assert_specified ''dataset'' ''dataset must be specified'' c) (\<lambda>c.
     and_then (assert_specified ''algorithm'' ''algorithm must be specified'' c) (\<lambda>c.
     and_then (validate_from_source_domain c) validate_dann))"

text \<open>The six preset layers, lines 39 to 72, one definition for each statement.\<close>

definition layer_dataset :: "presets \<Rightarrow> config \<Rightarrow> outcome" where
  "layer_dataset P c =
     (case c ''dataset'' of
        None \<Rightarrow> Raise (AttributeError ''dataset'') c
      | Some ds \<Rightarrow>
          (case table_get (dataset_defaults P) ds of
             Inl e \<Rightarrow> Raise e c
           | Inr template \<Rightarrow> populate_config c template False))"

definition layer_split :: "presets \<Rightarrow> config \<Rightarrow> outcome" where
  "layer_split P c =
     (case c ''dataset'' of
        None \<Rightarrow> Raise (AttributeError ''dataset'') c
      | Some ds \<Rightarrow>
          (case table_has (split_defaults P) ds of
             Inl e \<Rightarrow> Raise e c
           | Inr False \<Rightarrow> Return c
           | Inr True \<Rightarrow>
               (case c ''split_scheme'' of
                  None \<Rightarrow> Raise (AttributeError ''split_scheme'') c
                | Some ss \<Rightarrow>
                    (case table_get (split_defaults P) ds of
                       Inl e \<Rightarrow> Raise e c
                     | Inr schemes \<Rightarrow>
                         (case table_has schemes ss of
                            Inl e \<Rightarrow> Raise e c
                          | Inr False \<Rightarrow> Return c
                          | Inr True \<Rightarrow>
                              (case table_get schemes ss of
                                 Inl e \<Rightarrow> Raise e c
                               | Inr template \<Rightarrow> populate_config c template False))))))"

definition layer_algorithm :: "presets \<Rightarrow> config \<Rightarrow> outcome" where
  "layer_algorithm P c =
     (case c ''algorithm'' of
        None \<Rightarrow> Raise (AttributeError ''algorithm'') c
      | Some a \<Rightarrow>
          (case table_get (algorithm_defaults P) a of
             Inl e \<Rightarrow> Raise e c
           | Inr template \<Rightarrow> populate_config c template False))"

definition layer_loader :: "presets \<Rightarrow> config \<Rightarrow> outcome" where
  "layer_loader P c = populate_config c (loader_defaults P) False"

definition layer_model :: "presets \<Rightarrow> config \<Rightarrow> outcome" where
  "layer_model P c =
     (case c ''model'' of
        None \<Rightarrow> Raise (AttributeError ''model'') c
      | Some m \<Rightarrow>
          if py_bool m then
            (case table_get (model_defaults P) m of
               Inl e \<Rightarrow> Raise e c
             | Inr template \<Rightarrow> populate_config c template False)
          else Return c)"

definition layer_scheduler :: "presets \<Rightarrow> config \<Rightarrow> outcome" where
  "layer_scheduler P c =
     (case c ''scheduler'' of
        None \<Rightarrow> Raise (AttributeError ''scheduler'') c
      | Some s \<Rightarrow>
          if py_bool s then
            (case table_get (scheduler_defaults P) s of
               Inl e \<Rightarrow> Raise e c
             | Inr template \<Rightarrow> populate_config c template False)
          else Return c)"

definition cascade :: "presets \<Rightarrow> config \<Rightarrow> outcome" where
  "cascade P c =
     and_then (layer_dataset P c) (\<lambda>c.
     and_then (layer_split P c) (\<lambda>c.
     and_then (layer_algorithm P c) (\<lambda>c.
     and_then (layer_loader P c) (\<lambda>c.
     and_then (layer_model P c) (layer_scheduler P)))))"

text \<open>Lines 75 to 77. The assignment of line 76 creates the attribute when it is missing.\<close>

definition misc_defaults :: "config \<Rightarrow> outcome" where
  "misc_defaults c =
     (case c ''groupby_fields'' of
        None \<Rightarrow> Raise (AttributeError ''groupby_fields'') c
      | Some g \<Rightarrow>
          (let c1 = (if g = PNone then c(''no_group_logging'' \<mapsto> PBool True) else c) in
           case c1 ''no_group_logging'' of
             None \<Rightarrow> Raise (AttributeError ''no_group_logging'') c1
           | Some v \<Rightarrow> Return (c1(''no_group_logging'' \<mapsto> PBool (py_bool v)))))"

text \<open>Lines 80 to 85: the checklist, in the order of the source.\<close>

definition required_fields :: "string list" where
  "required_fields =
     [''split_scheme'', ''train_loader'', ''uniform_over_groups'', ''batch_size'', ''eval_loader'',
      ''model'', ''loss_function'', ''val_metric'', ''val_metric_decreasing'', ''n_epochs'',
      ''optimizer'', ''lr'', ''weight_decay'']"

fun check_required :: "string list \<Rightarrow> config \<Rightarrow> outcome" where
  "check_required [] c = Return c"
| "check_required (field # rest) c =
     (case c field of
        None \<Rightarrow> Raise (AttributeError field) c
      | Some v \<Rightarrow>
          if v \<noteq> PNone then check_required rest c
          else Raise (AssertionError ''Must manually specify {field} for this setup.'' [PStr field]) c)"

definition populate_defaults :: "presets \<Rightarrow> config \<Rightarrow> outcome" where
  "populate_defaults P c =
     and_then (validations c) (\<lambda>c.
     and_then (cascade P c) (\<lambda>c.
     and_then (misc_defaults c) (check_required required_fields)))"

text \<open>A sequence of statements run in order, stopping at the first exception.\<close>

fun run_layers :: "(config \<Rightarrow> outcome) list \<Rightarrow> config \<Rightarrow> outcome" where
  "run_layers [] c = Return c"
| "run_layers (layer # layers) c = and_then (layer c) (run_layers layers)"

text \<open>A group count that was given, and is not 1 (the tests of lines 17 and 25).\<close>

definition preset_not_one :: "config \<Rightarrow> string \<Rightarrow> bool" where
  "preset_not_one c field =
     (case c field of None \<Rightarrow> False | Some v \<Rightarrow> v \<noteq> PNone \<and> \<not> py_eq v (PInt 1))"

text \<open>The attribute is there and is not \<^verbatim>\<open>None\<close>.\<close>

definition specified :: "config \<Rightarrow> string \<Rightarrow> bool" where
  "specified c field = (case c field of None \<Rightarrow> False | Some v \<Rightarrow> v \<noteq> PNone)"

text \<open>
  Preset tables and a settings object to run the resolver on: one dataset, one algorithm,
  one model, no split preset and no scheduler. The settings object is what the command line
  gives when only the dataset, the algorithm and the grouping are chosen.
\<close>

definition example_presets :: presets where
  "example_presets =
     \<lparr> dataset_defaults =
         [(''camelyon17'',
           PDict [(''split_scheme'', PStr ''official''), (''model'', PStr ''densenet121''),
                  (''model_kwargs'', PDict [(''pretrained'', PBool False)]),
                  (''loss_function'', PStr ''cross_entropy''), (''val_metric'', PStr ''acc_avg''),
                  (''val_metric_decreasing'', PBool False), (''optimizer'', PStr ''SGD''),
                  (''batch_size'', PInt 32), (''lr'', PFloat 0.001), (''weight_decay'', PFloat 0.01),
                  (''n_epochs'', PInt 5)])],
       split_defaults = [],
       algorithm_defaults =
         [(''deepCORAL'',
           PDict [(''train_loader'', PStr ''group''), (''uniform_over_groups'', PBool True),
                  (''n_groups_per_batch'', PInt 2), (''lr'', PFloat 0.5)])],
       loader_defaults = PDict [(''eval_loader'', PStr ''standard''), (''loader_kwargs'', PDict [(''num_workers'', PInt 4)])],
       model_defaults = [(''densenet121'', PDict [(''model_kwargs'', PDict [(''pretrained'', PBool True)])])],
       scheduler_defaults = [] \<rparr>"

definition example_config :: config where
  "example_config =
     [''dataset'' \<mapsto> PStr ''camelyon17'', ''algorithm'' \<mapsto> PStr ''deepCORAL'',
      ''groupby_fields'' \<mapsto> PList [PStr ''from_source_domain''],
      ''n_groups_per_batch'' \<mapsto> PNone, ''unlabeled_n_groups_per_batch'' \<mapsto> PNone,
      ''split_scheme'' \<mapsto> PNone, ''train_loader'' \<mapsto> PNone, ''uniform_over_groups'' \<mapsto> PNone,
      ''batch_size'' \<mapsto> PNone, ''eval_loader'' \<mapsto> PNone, ''model'' \<mapsto> PNone,
      ''loss_function'' \<mapsto> PNone, ''val_metric'' \<mapsto> PNone, ''val_metric_decreasing'' \<mapsto> PNone,
      ''n_epochs'' \<mapsto> PNone, ''optimizer'' \<mapsto> PNone, ''lr'' \<mapsto> PNone, ''weight_decay'' \<mapsto> PNone,
      ''scheduler'' \<mapsto> PNone, ''no_group_logging'' \<mapsto> PNone,
      ''model_kwargs'' \<mapsto> PDict [], ''loader_kwargs'' \<mapsto> PDict []]"

text \<open>What lines 15 and 16 (23 and 24) do to the settings object.\<close>

definition default_one :: "string \<Rightarrow> config \<Rightarrow> config" where
  "default_one f c = (if c f = Some PNone then c(f \<mapsto> PInt 1) else c)"




section \<open>Tensors and the CORAL penalty\<close>

text \<open>
  The penalty algorithm (\<^verbatim>\<open>examples/algorithms/deepCORAL.py\<close>) computes with tensors of
  floats. Arithmetic is taken exactly here: a float is the real number it denotes, there is
  no rounding and no overflow. The one non-finite value stands for NaN and the infinities:
  it comes from a division by zero and is absorbed by every operation that the algorithm
  uses (sum, difference, product, division by a count).
\<close>

datatype fl = Fin real | NonFinite

fun fadd :: "fl \<Rightarrow> fl \<Rightarrow> fl" where
  "fadd (Fin a) (Fin b) = Fin (a + b)"
| "fadd _ _ = NonFinite"

fun fsub :: "fl \<Rightarrow> fl \<Rightarrow> fl" where
  "fsub (Fin a) (Fin b) = Fin (a - b)"
| "fsub _ _ = NonFinite"

fun fmul :: "fl \<Rightarrow> fl \<Rightarrow> fl" where
  "fmul (Fin a) (Fin b) = Fin (a * b)"
| "fmul _ _ = NonFinite"

fun fdiv :: "fl \<Rightarrow> fl \<Rightarrow> fl" where
  "fdiv (Fin a) (Fin b) = (if b = 0 then NonFinite else Fin (a / b))"
| "fdiv _ _ = NonFinite"


definition fsum :: "fl list \<Rightarrow> fl" where
  "fsum xs = foldl fadd (Fin 0) xs"

text \<open>\<^verbatim>\<open>t.mean()\<close> over all the entries of a tensor; the mean of no entry is NaN.\<close>

definition mean_all :: "fl list \<Rightarrow> fl" where
  "mean_all xs = fdiv (fsum xs) (Fin (real (length xs)))"

text \<open>
  A featurizer outputs a tensor of size (batch size, ..., feature dimensionality). A tensor
  of two dimensions is the list of its rows, one for each example. A tensor of more
  dimensions is, for each example, the list of its feature vectors in row-major order, which
  is all that \<^verbatim>\<open>view(-1, x.size(-1))\<close> looks at. The first argument of each constructor
  is \<^verbatim>\<open>x.size(-1)\<close>.
\<close>

datatype tensor = Mat nat "fl list list" | Blocks nat "fl list list list"

fun width :: "tensor \<Rightarrow> nat" where
  "width (Mat d rows) = d"
| "width (Blocks d blocks) = d"

text \<open>\<^verbatim>\<open>len(t)\<close>, the number of examples.\<close>

fun examples :: "tensor \<Rightarrow> nat" where
  "examples (Mat d rows) = length rows"
| "examples (Blocks d blocks) = length blocks"

text \<open>\<^verbatim>\<open>x.view(-1, x.size(-1))\<close>.\<close>

fun view_rows :: "tensor \<Rightarrow> fl list list" where
  "view_rows (Mat d rows) = rows"
| "view_rows (Blocks d blocks) = concat blocks"



text \<open>\<^verbatim>\<open>t[indices]\<close> with a tensor of example indices; an index past the end raises.\<close>

fun select_list :: "'a list \<Rightarrow> nat list \<Rightarrow> error + 'a list" where
  "select_list xs [] = Inr []"
| "select_list xs (i # rest) =
     (if i < length xs then
        (case select_list xs rest of Inl e \<Rightarrow> Inl e | Inr ys \<Rightarrow> Inr (xs ! i # ys))
      else Inl IndexError)"

fun select :: "tensor \<Rightarrow> nat list \<Rightarrow> error + tensor" where
  "select (Mat d rows) indices =
     (case select_list rows indices of Inl e \<Rightarrow> Inl e | Inr rs \<Rightarrow> Inr (Mat d rs))"
| "select (Blocks d blocks) indices =
     (case select_list blocks indices of Inl e \<Rightarrow> Inl e | Inr bs \<Rightarrow> Inr (Blocks d bs))"

text \<open>
  Lines 61 to 71 on two tensors of two dimensions, given by their rows and their number
  of columns: \<open>mean0\<close> is \<^verbatim>\<open>x.mean(0, keepdim=True)\<close>, \<open>centered\<close> is \<^verbatim>\<open>x - mean_x\<close>,
  \<open>covariance\<close> is \<^verbatim>\<open>(cent_x.t() @ cent_x) / (len(x) - 1)\<close>, whose entry at \<open>(i, j)\<close>
  is the sum over the rows of the products of their entries at \<open>i\<close> and \<open>j\<close>.
\<close>

definition mean0 :: "nat \<Rightarrow> fl list list \<Rightarrow> fl list" where
  "mean0 d rows =
     map (\<lambda>j. fdiv (fsum (map (\<lambda>r. r ! j) rows)) (Fin (real (length rows)))) [0..<d]"

definition centered :: "fl list \<Rightarrow> fl list list \<Rightarrow> fl list list" where
  "centered mean rows = map (\<lambda>r. map2 fsub r mean) rows"

definition covariance :: "nat \<Rightarrow> fl list list \<Rightarrow> fl list list" where
  "covariance d cent =
     map (\<lambda>i. map (\<lambda>j. fdiv (fsum (map (\<lambda>r. fmul (r ! i) (r ! j)) cent))
                            (Fin (real (length cent) - 1))) [0..<d]) [0..<d]"

definition squares :: "fl list \<Rightarrow> fl list" where
  "squares xs = map (\<lambda>v. fmul v v) xs"

definition coral_rows :: "nat \<Rightarrow> fl list list \<Rightarrow> fl list list \<Rightarrow> fl" where
  "coral_rows d x y =
     (let mean_x = mean0 d x;
          mean_y = mean0 d y;
          cent_x = centered mean_x x;
          cent_y = centered mean_y y;
          cova_x = covariance d cent_x;
          cova_y = covariance d cent_y;
          mean_diff = mean_all (squares (map2 fsub mean_x mean_y));
          cova_diff = mean_all (squares (concat (map2 (map2 fsub) cova_x cova_y)))
      in fadd mean_diff cova_diff)"

text \<open>
  \<^verbatim>\<open>coral_penalty(x, y)\<close>. Line 55 looks at the dimensions of \<open>x\<close> only: when \<open>x\<close> has
  more than two, both tensors are viewed as rows; when \<open>x\<close> has two and \<open>y\<close> has more,
  \<^verbatim>\<open>cent_y.t()\<close> raises. The two tensors are taken to have the same feature
  dimensionality, as the features of one featurizer have (tensors of different widths would
  be broadcast or refused by the tensor library).
\<close>

fun coral_penalty :: "tensor \<Rightarrow> tensor \<Rightarrow> error + fl" where
  "coral_penalty (Blocks d blocks) y = Inr (coral_rows d (concat blocks) (view_rows y))"
| "coral_penalty (Mat d rows) (Mat d' rows') = Inr (coral_rows d rows rows')"
| "coral_penalty (Mat d rows) (Blocks d' blocks) = Inl RuntimeError"

section \<open>The results mapping and \<^verbatim>\<open>objective\<close>\<close>

text \<open>
  What \<^verbatim>\<open>process_batch\<close> puts in the results mapping: tensors of floats (features,
  predictions), tensors of integers (group identifiers, labels) and, once
  \<^verbatim>\<open>objective\<close> has run, the penalty as a plain number.
\<close>

datatype rval = RTensor tensor | RInts "int list" | RFloat fl

type_synonym results = "string \<rightharpoonup> rval"

text \<open>
  The part of the algorithm object that \<^verbatim>\<open>objective\<close> reads. The penalty weight is a
  hyperparameter, a finite number. The loss object belongs to another module and is a
  parameter: \<^verbatim>\<open>self.loss.compute(y_pred, y_true, return_dict=False)\<close>.
\<close>

record deepcoral =
  is_training :: bool
  penalty_weight :: real
  loss_compute :: "rval \<Rightarrow> rval \<Rightarrow> fl"

text \<open>
  Modelled from the spec: \<^verbatim>\<open>split_into_groups\<close> of \<^verbatim>\<open>wilds.common.utils\<close>, which is
  not among the sources at hand. The specification says that it partitions the examples of
  a batch into groups by group identifier, stably. It returns the distinct group
  identifiers, here in increasing order, and for each of them the indices of the examples
  that carry it, in the order of the batch (the third component, the sizes of the groups,
  is not used by \<^verbatim>\<open>objective\<close>).
\<close>

definition unique_groups :: "int list \<Rightarrow> int list" where
  "unique_groups g = sort (remdups g)"

definition indices_of :: "int list \<Rightarrow> int \<Rightarrow> nat list" where
  "indices_of g u = filter (\<lambda>i. g ! i = u) [0..<length g]"

definition split_into_groups :: "int list \<Rightarrow> int list \<times> nat list list" where
  "split_into_groups g = (unique_groups g, map (indices_of g) (unique_groups g))"

text \<open>The index pairs of the two nested loops of lines 120 and 121, in the order of the loops.\<close>

definition index_pairs :: "nat \<Rightarrow> (nat \<times> nat) list" where
  "index_pairs m = concat (map (\<lambda>i. map (\<lambda>j. (i, j)) [i + 1..<m]) [0..<m])"

text \<open>A value of the results read as the tensor of floats, or of integers, that the code takes it for.\<close>

fun as_tensor :: "rval \<Rightarrow> error + tensor" where
  "as_tensor (RTensor t) = Inr t"
| "as_tensor _ = Inl TypeError"

fun as_ints :: "rval \<Rightarrow> error + int list" where
  "as_ints (RInts g) = Inr g"
| "as_ints _ = Inl TypeError"

text \<open>
  Lines 122 to 124 for one pair: the features of a group are those of the labeled tensor
  when the group is one of the first \<open>n\<close>, and of the unlabeled tensor otherwise (a name
  that is bound only when the results hold unlabeled features).
\<close>

definition group_features :: "nat \<Rightarrow> rval \<Rightarrow> rval option \<Rightarrow> nat list list \<Rightarrow> nat \<Rightarrow> error + tensor" where
  "group_features n labeled unlabeled group_indices k =
     (case (if k < n then Some labeled else unlabeled) of
        None \<Rightarrow> Inl RuntimeError
      | Some v \<Rightarrow>
          (case as_tensor v of
             Inl e \<Rightarrow> Inl e
           | Inr t \<Rightarrow> select t (group_indices ! k)))"

definition pair_penalty :: "nat \<Rightarrow> rval \<Rightarrow> rval option \<Rightarrow> nat list list \<Rightarrow> nat \<times> nat \<Rightarrow> error + fl" where
  "pair_penalty n labeled unlabeled group_indices p =
     (case group_features n labeled unlabeled group_indices (fst p) of
        Inl e \<Rightarrow> Inl e
      | Inr x \<Rightarrow>
          (case group_features n labeled unlabeled group_indices (snd p) of
             Inl e \<Rightarrow> Inl e
           | Inr y \<Rightarrow> coral_penalty x y))"

text \<open>The loops: \<^verbatim>\<open>penalty += ...\<close> for each pair; an exception ends them.\<close>

fun penalty_loop :: "(nat \<times> nat \<Rightarrow> error + fl) \<Rightarrow> fl \<Rightarrow> (nat \<times> nat) list \<Rightarrow> error + fl" where
  "penalty_loop f penalty [] = Inr penalty"
| "penalty_loop f penalty (p # ps) =
     (case f p of Inl e \<Rightarrow> Inl e | Inr v \<Rightarrow> penalty_loop f (fadd penalty v) ps)"

text \<open>
  Lines 118 to 126. The penalty is a tensor of one entry, \<^verbatim>\<open>torch.zeros(1)\<close>, taken
  here as that entry; the divisor \<^verbatim>\<open>total * (total - 1) / 2\<close> is a true division.
\<close>

definition mean_penalty :: "nat \<Rightarrow> rval \<Rightarrow> rval option \<Rightarrow> nat list list \<Rightarrow> nat \<Rightarrow> error + fl" where
  "mean_penalty n labeled unlabeled group_indices total_groups =
     (case penalty_loop (pair_penalty n labeled unlabeled group_indices) (Fin 0)
             (index_pairs total_groups) of
        Inl e \<Rightarrow> Inl e
      | Inr penalty \<Rightarrow>
          Inr (if total_groups > 1
               then fdiv penalty (Fin (real total_groups * (real total_groups - 1) / 2))
               else penalty))"

text \<open>
  Lines 130 to 137: the penalty is stored in the results, then the loss is computed from
  \<^verbatim>\<open>results['y_pred']\<close> and \<^verbatim>\<open>results['y_true']\<close>.
\<close>

definition finish :: "deepcoral \<Rightarrow> results \<Rightarrow> fl \<Rightarrow> (error + fl) \<times> results" where
  "finish self results penalty =
     (let results = results(''penalty'' \<mapsto> RFloat penalty) in
      case results ''y_pred'' of
        None \<Rightarrow> (Inl (KeyError (PStr ''y_pred'')), results)
      | Some y_pred \<Rightarrow>
          (case results ''y_true'' of
             None \<Rightarrow> (Inl (KeyError (PStr ''y_true'')), results)
           | Some y_true \<Rightarrow>
               (Inr (fadd (loss_compute self y_pred y_true)
                          (fmul penalty (Fin (penalty_weight self)))),
                results)))"

text \<open>
  Lines 106 to 126, after the features have been popped: the result is the penalty or an
  exception, and the results mapping as the block leaves it.
\<close>

definition training_penalty :: "rval \<Rightarrow> results \<Rightarrow> (error + fl) \<times> results" where
  "training_penalty labeled results =
     (case results ''g'' of
        None \<Rightarrow> (Inl (KeyError (PStr ''g'')), results)
      | Some gv \<Rightarrow>
          (case as_ints gv of
             Inl e \<Rightarrow> (Inl e, results)
           | Inr g \<Rightarrow>
               (let n_groups_per_batch = length (fst (split_into_groups g));
                    group_indices = snd (split_into_groups g)
                in case results ''unlabeled_features'' of
                     None \<Rightarrow>
                       (mean_penalty n_groups_per_batch labeled None group_indices n_groups_per_batch,
                        results)
                   | Some uv \<Rightarrow>
                       (let results = results(''unlabeled_features'' := None) in
                        case results ''unlabeled_g'' of
                          None \<Rightarrow> (Inl (KeyError (PStr ''unlabeled_g'')), results)
                        | Some ugv \<Rightarrow>
                            (case as_ints ugv of
                               Inl e \<Rightarrow> (Inl e, results)
                             | Inr ug \<Rightarrow>
                                 (mean_penalty n_groups_per_batch labeled (Some uv)
                                    (group_indices @ snd (split_into_groups ug))
                                    (n_groups_per_batch + length (fst (split_into_groups ug))),
                                  results))))))"

text \<open>
  \<^verbatim>\<open>objective(results)\<close>: the value returned or the exception raised, and the results
  mapping as the call leaves it (the call mutates its argument).
\<close>

definition objective :: "deepcoral \<Rightarrow> results \<Rightarrow> (error + fl) \<times> results" where
  "objective self results =
     (case results ''features'' of
        None \<Rightarrow> (Inl (KeyError (PStr ''features'')), results)
      | Some fv \<Rightarrow>
          (let results = results(''features'' := None) in
           if is_training self then
             (case training_penalty fv results of
                (Inl e, results) \<Rightarrow> (Inl e, results)
              | (Inr penalty, results) \<Rightarrow> finish self results penalty)
           else finish self results (Fin 0)))"


section \<open>Notions used to state the properties of the penalty algorithm\<close>

text \<open>
  The feature vectors of the examples of a tensor at the given indices, as
  \<^verbatim>\<open>coral_penalty\<close> sees them after \<^verbatim>\<open>t[indices]\<close>.
\<close>

fun group_rows :: "tensor \<Rightarrow> nat list \<Rightarrow> fl list list" where
  "group_rows (Mat d rows) indices = map (\<lambda>i. rows ! i) indices"
| "group_rows (Blocks d blocks) indices = concat (map (\<lambda>i. blocks ! i) indices)"

text \<open>Two tensors with the same feature dimensionality, both of two dimensions or both of more.\<close>

fun same_shape :: "tensor \<Rightarrow> tensor \<Rightarrow> bool" where
  "same_shape (Mat d rows) (Mat d' rows') = (d = d')"
| "same_shape (Blocks d blocks) (Blocks d' blocks') = (d = d')"
| "same_shape _ _ = False"

text \<open>
  The groups of a batch: for each distinct group identifier of the labeled examples, the
  feature vectors of the examples that carry it; then the same for the unlabeled examples,
  when there are any.
\<close>

definition groups_of :: "tensor \<Rightarrow> int list \<Rightarrow> fl list list list" where
  "groups_of t g = map (\<lambda>u. group_rows t (indices_of g u)) (unique_groups g)"

definition batch_groups :: "tensor \<Rightarrow> int list \<Rightarrow> (tensor \<times> int list) option \<Rightarrow> fl list list list" where
  "batch_groups labeled g unlabeled =
     groups_of labeled g @ (case unlabeled of None \<Rightarrow> [] | Some (u, ug) \<Rightarrow> groups_of u ug)"

text \<open>
  The summed penalty over the index pairs \<open>i < j\<close> of a list of groups, and its mean over
  the \<open>C(n, 2)\<close> pairs when there are at least two groups (zero otherwise).
\<close>

definition pairwise_sum :: "nat \<Rightarrow> fl list list list \<Rightarrow> fl" where
  "pairwise_sum d G =
     fsum (map (\<lambda>p. coral_rows d (G ! fst p) (G ! snd p)) (index_pairs (length G)))"

definition mean_pairwise :: "nat \<Rightarrow> fl list list list \<Rightarrow> fl" where
  "mean_pairwise d G =
     (if 2 \<le> length G then fdiv (pairwise_sum d G) (Fin (real (length G choose 2))) else Fin 0)"

text \<open>
  The value of the objective in the words of the specification: the base loss plus the
  penalty weight times the summed penalty divided by the number \<open>C(n, 2)\<close> of pairs.
\<close>

definition claimed_objective :: "fl \<Rightarrow> real \<Rightarrow> fl \<Rightarrow> nat \<Rightarrow> fl" where
  "claimed_objective base_loss weight summed n =
     fadd base_loss (fmul (fdiv summed (Fin (real (n choose 2)))) (Fin weight))"


text \<open>
  An algorithm object in training mode with weight 1/10 and a loss that is always 1, and two
  batches of one-dimensional features: four examples in the groups 0 and 1, and two
  examples in the single group 0.
\<close>

definition example_algorithm :: deepcoral where
  "example_algorithm =
     \<lparr> is_training = True, penalty_weight = 1 / 10, loss_compute = (\<lambda>y_pred y_true. Fin 1) \<rparr>"

definition example_results :: results where
  "example_results =
     [''g'' \<mapsto> RInts [0, 1, 0, 1], ''y_true'' \<mapsto> RInts [1, 0, 1, 1],
      ''y_pred'' \<mapsto> RTensor (Mat 1 [[Fin 0], [Fin 1], [Fin 1], [Fin 1]]),
      ''features'' \<mapsto> RTensor (Mat 1 [[Fin 1], [Fin 2], [Fin 3], [Fin 6]])]"

definition one_group_results :: results where
  "one_group_results =
     [''g'' \<mapsto> RInts [0, 0], ''y_true'' \<mapsto> RInts [1, 0],
      ''y_pred'' \<mapsto> RTensor (Mat 1 [[Fin 0], [Fin 1]]),
      ''features'' \<mapsto> RTensor (Mat 1 [[Fin 1], [Fin 2]])]"

section \<open>Properties of \<^verbatim>\<open>populate_config\<close>\<close>

lemma as_dict_Some: "as_dict w = Some d \<longleftrightarrow> w = PDict d"
  by (cases w) auto

lemma dict_get_set: "dict_get (dict_set d k v) j = (if j = k then Some v else dict_get d j)"
  by (induction d) auto


lemma dict_extends_refl: "dict_extends d d"
  by (auto simp: dict_extends_def split: option.splits)

lemma dict_extends_trans: "dict_extends a b \<Longrightarrow> dict_extends b c \<Longrightarrow> dict_extends a c"
  unfolding dict_extends_def
  apply (intro allI)
  subgoal for j
    apply (erule allE[of _ j])+
    apply (auto split: option.splits if_splits)
    done
  done

lemma dict_extends_set:
  "dict_get d k = None \<or> dict_get d k = Some PNone \<Longrightarrow> dict_extends d (dict_set d k v)"
  by (auto simp: dict_extends_def dict_get_set split: option.splits)

lemma extends_refl: "extends c c"
  by (auto simp: extends_def as_dict_Some dict_extends_refl split: option.splits)

lemma extends_trans: "extends a b \<Longrightarrow> extends b c \<Longrightarrow> extends a c"
  unfolding extends_def
  apply (intro allI)
  subgoal for k
    apply (erule allE[of _ k])+
    apply (auto split: option.splits if_splits simp: as_dict_Some dest: dict_extends_trans)
    done
  done

lemma extends_upd_dict:
  "c key = Some (PDict d) \<Longrightarrow> dict_extends d d' \<Longrightarrow> extends c (c(key \<mapsto> PDict d'))"
  by (auto simp: extends_def as_dict_Some dict_extends_refl split: option.splits)

lemma extends_upd_unset:
  "c key = None \<or> c key = Some PNone \<Longrightarrow> extends c (c(key \<mapsto> v))"
  by (auto simp: extends_def as_dict_Some dict_extends_refl split: option.splits)

lemma kwargs_extends: "extends c (state_of (populate_kwargs key val fc c kw))"
proof (induction kw arbitrary: c)
  case Nil
  show ?case by (simp add: extends_refl)
next
  case (Cons item kw)
  obtain j u where item: "item = (j, u)" by (cases item)
  show ?case
  proof (cases "c key")
    case None
    then show ?thesis by (simp add: item extends_refl)
  next
    case (Some cur)
    show ?thesis
    proof (cases "as_dict cur")
      case None
      with Some show ?thesis by (simp add: item extends_refl)
    next
      case (Some d)
      then have cur: "cur = PDict d" by (simp add: as_dict_Some)
      let ?c' = "c(key \<mapsto> PDict (dict_set d j u))"
      have fill: "extends c (state_of (populate_kwargs key val fc ?c' kw))"
        if "dict_get d j = None \<or> dict_get d j = Some PNone"
      proof -
        have "extends c ?c'"
          using \<open>c key = Some cur\<close> cur dict_extends_set[OF that, of u]
          by (auto intro: extends_upd_dict)
        then show ?thesis using Cons.IH[of ?c'] by (rule extends_trans)
      qed
      show ?thesis
        using \<open>c key = Some cur\<close> cur fill Cons.IH[of c]
        by (auto simp: item extends_refl split: option.splits)
    qed
  qed
qed

lemma and_then_state:
  assumes "extends c (state_of m)" and "\<And>c'. extends c' (state_of (f c'))"
  shows "extends c (state_of (and_then m f))"
proof (cases m)
  case (Return c')
  then show ?thesis using assms(1) assms(2)[of c'] by (auto intro: extends_trans)
next
  case (Raise e c')
  then show ?thesis using assms(1) by simp
qed

lemma items_extends: "extends c (state_of (populate_items fc c T))"
proof (induction T arbitrary: c)
  case Nil
  show ?case by (simp add: extends_refl)
next
  case (Cons item T)
  obtain k v where item: "item = (k, v)" by (cases item)
  show ?case
  proof (cases "as_dict v")
    case (Some kw)
    have "extends c (state_of (and_then (populate_kwargs k v fc c kw) (\<lambda>c'. populate_items fc c' T)))"
      by (rule and_then_state) (simp_all add: kwargs_extends Cons.IH)
    then show ?thesis by (simp add: item Some)
  next
    case None
    have fill: "extends c (state_of (populate_items fc (c(k \<mapsto> v)) T))"
      if "c k = None \<or> c k = Some PNone"
      using extends_upd_unset[of c k v, OF that] Cons.IH[of "c(k \<mapsto> v)"] by (rule extends_trans)
    show ?thesis
      using None fill Cons.IH[of c]
      by (auto simp: item extends_refl split: option.splits)
  qed
qed

lemma config_extends: "extends c (state_of (populate_config c T fc))"
  by (cases T) (simp_all add: extends_refl items_extends)

lemma settled_kw_mono: "dict_extends d d' \<Longrightarrow> settled_kw d i \<Longrightarrow> settled_kw d' i"
  unfolding dict_extends_def settled_kw_def
  apply (erule allE[of _ "fst i"])
  apply (auto split: option.splits if_splits)
  done



lemma kwargs_dict:
  "c key = Some (PDict d) \<Longrightarrow>
   \<exists>d'. populate_kwargs key val False c kw = Return (c(key \<mapsto> PDict d'))
       \<and> dict_extends d d' \<and> list_all (settled_kw d') kw"
proof (induction kw arbitrary: c d)
  case Nil
  then show ?case by (auto simp: dict_extends_refl map_upd_triv intro!: exI[of _ d])
next
  case (Cons item kw)
  obtain j u where item: "item = (j, u)" by (cases item)
  define d1 where "d1 = (case dict_get d j of None \<Rightarrow> dict_set d j u
                         | Some w \<Rightarrow> if w = PNone then dict_set d j u else d)"
  have step: "populate_kwargs key val False c (item # kw)
              = populate_kwargs key val False (c(key \<mapsto> PDict d1)) kw"
    using Cons.prems by (auto simp: item d1_def map_upd_triv split: option.splits)
  have ext1: "dict_extends d d1"
    by (auto simp: d1_def dict_extends_refl dict_extends_set split: option.splits)
  have s1: "settled_kw d1 (j, u)"
    by (auto simp: d1_def settled_kw_def dict_get_set split: option.splits)
  have "\<exists>d'. populate_kwargs key val False (c(key \<mapsto> PDict d1)) kw
                = Return ((c(key \<mapsto> PDict d1))(key \<mapsto> PDict d'))
              \<and> dict_extends d1 d' \<and> list_all (settled_kw d') kw"
    by (rule Cons.IH) simp
  then obtain d' where d': "populate_kwargs key val False (c(key \<mapsto> PDict d1)) kw
                       = Return (c(key \<mapsto> PDict d'))"
      "dict_extends d1 d'" "list_all (settled_kw d') kw"
    by (auto simp del: fun_upd_apply)
  show ?case
    using step d' ext1 s1
    by (auto simp: item intro!: exI[of _ d'] intro: dict_extends_trans settled_kw_mono)
qed







lemma kwargs_other: "k \<noteq> key \<Longrightarrow> state_of (populate_kwargs key val fc c kw) k = c k"
proof (induction kw arbitrary: c)
  case Nil
  show ?case by simp
next
  case (Cons item kw)
  obtain j u where item: "item = (j, u)" by (cases item)
  have "state_of (populate_kwargs key val fc (c(key \<mapsto> x)) kw) k = c k" for x
  proof -
    have "state_of (populate_kwargs key val fc (c(key \<mapsto> x)) kw) k = (c(key \<mapsto> x)) k"
      by (rule Cons.IH[OF Cons.prems])
    then show ?thesis using Cons.prems by simp
  qed
  then show ?case
    using Cons.IH[of c] Cons.prems by (auto simp: item split: option.splits)
qed

lemma kwargs_fill:
  assumes "c key = Some (PDict d)" and "distinct (map fst kw)"
  shows "\<exists>d'. populate_kwargs key val False c kw = Return (c(key \<mapsto> PDict d'))
           \<and> (\<forall>j u. (j, u) \<in> set kw \<longrightarrow> dict_get d' j = (if unset (dict_get d j) then Some u else dict_get d j))
           \<and> (\<forall>j. j \<notin> fst ` set kw \<longrightarrow> dict_get d' j = dict_get d j)"
  using assms
proof (induction kw arbitrary: c d)
  case Nil
  then show ?case by (auto simp: map_upd_triv intro!: exI[of _ d])
next
  case (Cons item kw)
  obtain j u where item: "item = (j, u)" by (cases item)
  define d1 where "d1 = (if unset (dict_get d j) then dict_set d j u else d)"
  have step: "populate_kwargs key val False c (item # kw)
              = populate_kwargs key val False (c(key \<mapsto> PDict d1)) kw"
    using Cons.prems by (auto simp: item d1_def unset_def map_upd_triv split: option.splits)
  have g1: "dict_get d1 j' = (if j' = j \<and> unset (dict_get d j) then Some u else dict_get d j')" for j'
    by (simp add: d1_def dict_get_set)
  from Cons.prems have dist: "distinct (map fst kw)" and jn: "j \<notin> fst ` set kw" by (auto simp: item)
  have "\<exists>d'. populate_kwargs key val False (c(key \<mapsto> PDict d1)) kw
                = Return ((c(key \<mapsto> PDict d1))(key \<mapsto> PDict d'))
           \<and> (\<forall>j u. (j, u) \<in> set kw \<longrightarrow> dict_get d' j = (if unset (dict_get d1 j) then Some u else dict_get d1 j))
           \<and> (\<forall>j. j \<notin> fst ` set kw \<longrightarrow> dict_get d' j = dict_get d1 j)"
    by (rule Cons.IH) (simp_all add: dist)
  then obtain d' where d': "populate_kwargs key val False (c(key \<mapsto> PDict d1)) kw
                = Return (c(key \<mapsto> PDict d'))"
     "\<And>j u. (j, u) \<in> set kw \<Longrightarrow> dict_get d' j = (if unset (dict_get d1 j) then Some u else dict_get d1 j)"
     "\<And>j. j \<notin> fst ` set kw \<Longrightarrow> dict_get d' j = dict_get d1 j"
    by (auto simp del: fun_upd_apply)
  have a: "dict_get d' j' = (if unset (dict_get d j') then Some u' else dict_get d j')"
    if "(j', u') \<in> set (item # kw)" for j' u'
  proof (cases "(j', u') = (j, u)")
    case True
    then show ?thesis using d'(3)[OF jn] g1[of j] by (auto simp: unset_def)
  next
    case False
    with that have in_kw: "(j', u') \<in> set kw" by (auto simp: item)
    then have "j' \<noteq> j" using jn by force
    then show ?thesis using d'(2)[OF in_kw] g1[of j'] by simp
  qed
  have b: "dict_get d' j' = dict_get d j'" if "j' \<notin> fst ` set (item # kw)" for j'
    using that d'(3)[of j'] g1[of j'] by (auto simp: item)
  show ?case
    unfolding step d'(1) using a b by (intro exI[of _ d']) blast
qed

lemma item_fill:
  assumes "group_present C (k, v)"
    and "case as_dict v of None \<Rightarrow> True | Some kw \<Rightarrow> distinct (map fst kw)"
  shows "\<exists>c1. populate_items False C ((k, v) # T) = populate_items False c1 T
         \<and> (\<forall>k'. k' \<noteq> k \<longrightarrow> c1 k' = C k') \<and> item_filled v (C k) (c1 k)"
proof (cases "as_dict v")
  case None
  show ?thesis
    by (rule exI[of _ "if unset (C k) then C(k \<mapsto> v) else C"])
       (use None in \<open>auto simp: unset_def item_filled_def split: option.splits\<close>)
next
  case (Some kw)
  then have v: "v = PDict kw" by (simp add: as_dict_Some)
  show ?thesis
  proof (cases "kw = []")
    case True
    then show ?thesis by (intro exI[of _ C]) (simp add: v item_filled_def)
  next
    case False
    with assms(1) obtain d where d: "C k = Some (PDict d)"
      by (auto simp: group_present_def v as_dict_Some split: option.splits)
    from assms(2) have dist: "distinct (map fst kw)" by (simp add: v)
    from kwargs_fill[where c=C and key=k and d=d and kw=kw and val=v, OF d dist]
    obtain d' where d': "populate_kwargs k v False C kw = Return (C(k \<mapsto> PDict d'))"
      and f: "kwargs_filled kw d d'"
      unfolding kwargs_filled_def by blast
    show ?thesis
      by (rule exI[of _ "C(k \<mapsto> PDict d')"])
         (use d d' f False in \<open>simp add: v item_filled_def\<close>)
  qed
qed

lemma populate_items_fill:
  assumes "wf_template T" and "groups_present C T"
  shows "\<exists>C'. populate_items False C T = Return C'
      \<and> (\<forall>k. k \<notin> fst ` set T \<longrightarrow> C' k = C k)
      \<and> (\<forall>k v. (k, v) \<in> set T \<longrightarrow> item_filled v (C k) (C' k))"
  using assms
proof (induction T arbitrary: C)
  case Nil
  show ?case by simp
next
  case (Cons item T)
  obtain k v where item: "item = (k, v)" by (cases item)
  from Cons.prems have wfT: "wf_template T" and kn: "k \<notin> fst ` set T"
    and nd: "case as_dict v of None \<Rightarrow> True | Some kw \<Rightarrow> distinct (map fst kw)"
    and gpk: "group_present C (k, v)"
    by (auto simp: wf_template_def groups_present_def item)
  from item_fill[OF gpk nd, of T]
  obtain c1 where c1: "populate_items False C ((k, v) # T) = populate_items False c1 T"
     and c1_other: "\<And>k'. k' \<noteq> k \<Longrightarrow> c1 k' = C k'"
     and c1_k: "item_filled v (C k) (c1 k)"
    by blast
  have same: "c1 k' = C k'" if "k' \<in> fst ` set T" for k'
    using that kn c1_other[of k'] by auto
  have gp: "groups_present c1 T"
    unfolding groups_present_def list_all_iff
  proof
    fix i assume i: "i \<in> set T"
    then have "c1 (fst i) = C (fst i)" by (intro same) simp
    then have "group_present c1 i = group_present C i"
      by (simp add: group_present_def split: option.splits)
    then show "group_present c1 i"
      using Cons.prems(2) i by (simp add: groups_present_def list_all_iff)
  qed
  from Cons.IH[OF wfT gp] obtain C' where run: "populate_items False c1 T = Return C'"
     and C'_other: "\<And>k. k \<notin> fst ` set T \<Longrightarrow> C' k = c1 k"
     and C'_in: "\<And>k v. (k, v) \<in> set T \<Longrightarrow> item_filled v (c1 k) (C' k)"
    by blast
  have k_final: "C' k = c1 k" using C'_other[OF kn] .
  show ?case
  proof (intro exI[of _ C'] conjI allI impI)
    show "populate_items False C (item # T) = Return C'" using c1 run by (simp only: item)
  next
    fix k' assume "k' \<notin> fst ` set (item # T)"
    then show "C' k' = C k'" using C'_other[of k'] c1_other[of k'] by (auto simp: item)
  next
    fix k' v' assume in_T: "(k', v') \<in> set (item # T)"
    show "item_filled v' (C k') (C' k')"
    proof (cases "(k', v') = (k, v)")
      case True
      then show ?thesis using k_final c1_k by simp
    next
      case False
      with in_T have t: "(k', v') \<in> set T" by (auto simp: item)
      then have "k' \<in> fst ` set T" by force
      then show ?thesis using C'_in[OF t] same[of k'] by simp
    qed
  qed
qed

lemma kw_conflict_set:
  "j' \<noteq> j \<Longrightarrow> kw_conflict (dict_set d j u) (j', u') = kw_conflict d (j', u')"
  by (simp add: kw_conflict_def dict_get_set)

lemma kwargs_strict:
  assumes "c key = Some (PDict d)" and "distinct (map fst kw)"
  shows "(list_ex (kw_conflict d) kw \<longrightarrow>
            (\<exists>msg args c'. populate_kwargs key val True c kw = Raise (ValueError msg args) c'))
       \<and> (\<not> list_ex (kw_conflict d) kw \<longrightarrow>
            populate_kwargs key val True c kw = populate_kwargs key val False c kw)"
  using assms
proof (induction kw arbitrary: c d)
  case Nil
  show ?case by simp
next
  case (Cons item kw)
  obtain j u where item: "item = (j, u)" by (cases item)
  from Cons.prems have dist: "distinct (map fst kw)" and jn: "j \<notin> fst ` set kw" by (auto simp: item)
  show ?case
  proof (cases "kw_conflict d (j, u)")
    case True
    then show ?thesis using Cons.prems(1)
      by (auto simp: item kw_conflict_def split: option.splits)
  next
    case False
    define d1 where "d1 = (if unset (dict_get d j) then dict_set d j u else d)"
    have step: "populate_kwargs key val fc c (item # kw)
              = populate_kwargs key val fc (c(key \<mapsto> PDict d1)) kw" for fc
      using Cons.prems(1) False
      by (auto simp: item d1_def unset_def kw_conflict_def map_upd_triv split: option.splits)
    have same: "list_ex (kw_conflict d1) kw = list_ex (kw_conflict d) kw"
    proof -
      have "kw_conflict d1 i = kw_conflict d i" if "i \<in> set kw" for i
      proof -
        from that jn have "fst i \<noteq> j" by force
        then show ?thesis using kw_conflict_set[of "fst i" j d u "snd i"] by (simp add: d1_def)
      qed
      then show ?thesis by (simp add: list_ex_iff)
    qed
    have ih: "(list_ex (kw_conflict d1) kw \<longrightarrow>
            (\<exists>msg args c'. populate_kwargs key val True (c(key \<mapsto> PDict d1)) kw = Raise (ValueError msg args) c'))
       \<and> (\<not> list_ex (kw_conflict d1) kw \<longrightarrow>
            populate_kwargs key val True (c(key \<mapsto> PDict d1)) kw
            = populate_kwargs key val False (c(key \<mapsto> PDict d1)) kw)"
      by (rule Cons.IH) (simp_all add: dist)
    have le: "list_ex (kw_conflict d) (item # kw) = list_ex (kw_conflict d) kw"
      using False by (simp add: item)
    show ?thesis unfolding le step using ih same by simp
  qed
qed

lemma item_step_other:
  "k' \<noteq> k \<Longrightarrow> state_of (populate_items fc C [(k, v)]) k' = C k'"
  by (cases "populate_kwargs k v fc C (the (as_dict v))")
     (use kwargs_other[of k' k v fc C "the (as_dict v)"] in
       \<open>auto split: option.splits\<close>)

lemma and_then_Return: "m = Return c \<Longrightarrow> and_then m f = f c"
  by simp

lemma item_step_nonstrict:
  assumes "group_present C (k, v)"
  shows "populate_items False C ((k, v) # T)
         = populate_items False (state_of (populate_items False C [(k, v)])) T"
proof (cases "as_dict v")
  case None
  then show ?thesis by (auto split: option.splits)
next
  case (Some kw)
  show ?thesis
  proof (cases "kw = []")
    case True
    then show ?thesis by (simp add: Some)
  next
    case False
    with assms obtain d where d: "C k = Some (PDict d)"
      by (auto simp: group_present_def Some as_dict_Some split: option.splits)
    from kwargs_dict[where c=C and key=k and d=d and kw=kw and val=v, OF d]
    obtain d' where "populate_kwargs k v False C kw = Return (C(k \<mapsto> PDict d'))" by blast
    then show ?thesis by (simp add: Some)
  qed
qed

lemma item_step_strict:
  assumes "group_present C (k, v)"
    and "case as_dict v of None \<Rightarrow> True | Some kw \<Rightarrow> distinct (map fst kw)"
  shows "(item_conflict C (k, v) \<longrightarrow>
            (\<exists>msg args c'. populate_items True C ((k, v) # T) = Raise (ValueError msg args) c'))
       \<and> (\<not> item_conflict C (k, v) \<longrightarrow>
            populate_items True C ((k, v) # T)
            = populate_items True (state_of (populate_items False C [(k, v)])) T)"
proof (cases "as_dict v")
  case None
  then show ?thesis by (auto simp: item_conflict_def split: option.splits)
next
  case (Some kw)
  show ?thesis
  proof (cases "kw = []")
    case True
    then show ?thesis by (simp add: Some item_conflict_def split: option.splits)
  next
    case False
    with assms(1) obtain d where d: "C k = Some (PDict d)"
      by (auto simp: group_present_def Some as_dict_Some split: option.splits)
    from assms(2) have dist: "distinct (map fst kw)" by (simp add: Some)
    have ic: "item_conflict C (k, v) = list_ex (kw_conflict d) kw"
      by (simp add: item_conflict_def d Some)
    from kwargs_dict[where c=C and key=k and d=d and kw=kw and val=v, OF d]
    obtain d' where d': "populate_kwargs k v False C kw = Return (C(k \<mapsto> PDict d'))" by blast
    from kwargs_strict[where c=C and key=k and d=d and kw=kw and val=v, OF d dist]
    show ?thesis unfolding ic using d' by (auto simp: Some)
  qed
qed

lemma item_conflict_cong: "c1 (fst i) = c (fst i) \<Longrightarrow> item_conflict c1 i = item_conflict c i"
  by (simp add: item_conflict_def)

lemma group_present_cong: "c1 (fst i) = c (fst i) \<Longrightarrow> group_present c1 i = group_present c i"
  by (simp add: group_present_def split: option.splits)

lemma items_strict:
  assumes "wf_template T" and "groups_present C T"
  shows "(conflict C T \<longrightarrow>
            (\<exists>msg args c'. populate_items True C T = Raise (ValueError msg args) c'))
       \<and> (\<not> conflict C T \<longrightarrow> populate_items True C T = populate_items False C T)"
  using assms
proof (induction T arbitrary: C)
  case Nil
  show ?case by (simp add: conflict_def)
next
  case (Cons item T)
  obtain k v where item: "item = (k, v)" by (cases item)
  from Cons.prems have wfT: "wf_template T" and kn: "k \<notin> fst ` set T"
    and nd: "case as_dict v of None \<Rightarrow> True | Some kw \<Rightarrow> distinct (map fst kw)"
    and gpk: "group_present C (k, v)"
    by (auto simp: wf_template_def groups_present_def item)
  define c1 where "c1 = state_of (populate_items False C [(k, v)])"
  have same: "c1 (fst i) = C (fst i)" if "i \<in> set T" for i
  proof -
    from that kn have "fst i \<noteq> k" by force
    then show ?thesis unfolding c1_def by (rule item_step_other)
  qed
  have "group_present c1 i = group_present C i" if "i \<in> set T" for i
    using same[OF that] by (rule group_present_cong)
  then have gp: "groups_present c1 T"
    using Cons.prems(2) by (simp add: groups_present_def list_all_iff item)
  have "item_conflict c1 i = item_conflict C i" if "i \<in> set T" for i
    using same[OF that] by (rule item_conflict_cong)
  then have cf: "conflict c1 T = conflict C T"
    by (simp add: conflict_def list_ex_iff)
  note ih = Cons.IH[OF wfT gp]
  note st = item_step_strict[OF gpk nd, of T, folded c1_def]
  note ns = item_step_nonstrict[OF gpk, of T, folded c1_def]
  show ?case
  proof (cases "item_conflict C (k, v)")
    case True
    then show ?thesis using st by (simp add: item conflict_def)
  next
    case False
    then have "conflict C (item # T) = conflict c1 T"
      using cf by (simp add: item conflict_def)
    moreover have "populate_items True C (item # T) = populate_items True c1 T"
      unfolding item using False st by blast
    moreover have "populate_items False C (item # T) = populate_items False c1 T"
      using ns by (simp only: item)
    ultimately show ?thesis using ih by simp
  qed
qed



section \<open>Claims on \<^verbatim>\<open>populate_config\<close>\<close>






text \<open>
  Claim C3, as the code has it. For a well-formed template \<open>T\<close> and a settings object that
  holds a dictionary under every key of \<open>T\<close> whose value is a non-empty keyword dictionary,
  \<^verbatim>\<open>populate_config(C, T, force_compatibility=True)\<close> raises exactly when there is a
  conflict: a key of \<open>T\<close> whose value is not a dictionary is bound in \<open>C\<close> to a non-null value
  that differs from the template's, or a key of a keyword dictionary of \<open>T\<close> is bound in the
  dictionary of \<open>C\<close> to a non-null value that differs from the template's. The exception is
  the \<^verbatim>\<open>ValueError\<close> of lines 126 and 133. Without a conflict the call returns what the
  non-strict call returns.
\<close>

theorem populate_config_strict_raises_iff_conflict:
  assumes "wf_template T" and "groups_present C T"
  shows "(raised (populate_config C (PDict T) True) \<noteq> None) = conflict C T
       \<and> (conflict C T \<longrightarrow>
            (\<exists>msg args. raised (populate_config C (PDict T) True) = Some (ValueError msg args)))
       \<and> (\<not> conflict C T \<longrightarrow>
            populate_config C (PDict T) True = populate_config C (PDict T) False)"
proof (cases "conflict C T")
  case True
  with items_strict[OF assms] obtain msg args c' where
    "populate_items True C T = Raise (ValueError msg args) c'" by blast
  with True show ?thesis by simp
next
  case False
  with items_strict[OF assms] have eq: "populate_items True C T = populate_items False C T"
    by blast
  from populate_items_fill[OF assms] obtain C' where "populate_items False C T = Return C'"
    by blast
  with eq False show ?thesis by simp
qed

theorem populate_config_strict_raises_iff_conflict_witness:
  "wf_template [(''lr'', PFloat 0.001)]
   \<and> groups_present [''lr'' \<mapsto> PFloat 0.5] [(''lr'', PFloat 0.001)]
   \<and> conflict [''lr'' \<mapsto> PFloat 0.5] [(''lr'', PFloat 0.001)]
   \<and> raised (populate_config [''lr'' \<mapsto> PFloat 0.5] (PDict [(''lr'', PFloat 0.001)]) True)
       = Some (ValueError ''Argument {key} must be set to {val}'' [PStr ''lr'', PFloat 0.001])"
proof -
  let ?T = "[(''lr'', PFloat 0.001)]"
  let ?C = "[''lr'' \<mapsto> PFloat 0.5]"
  have wf: "wf_template ?T" by (simp add: wf_template_def)
  have gp: "groups_present ?C ?T" by (simp add: groups_present_def group_present_def)
  have cf: "conflict ?C ?T" by (simp add: conflict_def item_conflict_def)
  from populate_config_strict_raises_iff_conflict[OF wf gp] cf
  have "raised (populate_config ?C (PDict ?T) True) \<noteq> None" by blast
  moreover have "raised (populate_config ?C (PDict ?T) True) = None
     \<or> raised (populate_config ?C (PDict ?T) True)
         = Some (ValueError ''Argument {key} must be set to {val}'' [PStr ''lr'', PFloat 0.001])"
    by simp
  ultimately have "raised (populate_config ?C (PDict ?T) True)
         = Some (ValueError ''Argument {key} must be set to {val}'' [PStr ''lr'', PFloat 0.001])"
    by (elim disjE) (erule notE, assumption+)
  with wf gp cf show ?thesis by (intro conjI)
qed

text \<open>
  The claim fails as it is written: both keys are shared and their values differ (\<^verbatim>\<open>lr\<close>
  is null in the settings object; the \<^verbatim>\<open>model_kwargs\<close> of the settings object has a key
  more than the template's), and the strict call returns.
\<close>

theorem populate_config_strict_counterexample:
  "shared_key_differs
     [''lr'' \<mapsto> PNone, ''model_kwargs'' \<mapsto> PDict [(''pretrained'', PBool True), (''depth'', PInt 3)]]
     [(''lr'', PFloat 0.001), (''model_kwargs'', PDict [(''pretrained'', PBool True)])]
   \<and> \<not> py_eq PNone (PFloat 0.001)
   \<and> \<not> py_eq (PDict [(''pretrained'', PBool True), (''depth'', PInt 3)])
              (PDict [(''pretrained'', PBool True)])
   \<and> populate_config
       [''lr'' \<mapsto> PNone, ''model_kwargs'' \<mapsto> PDict [(''pretrained'', PBool True), (''depth'', PInt 3)]]
       (PDict [(''lr'', PFloat 0.001), (''model_kwargs'', PDict [(''pretrained'', PBool True)])])
       True
     = Return [''lr'' \<mapsto> PFloat 0.001,
               ''model_kwargs'' \<mapsto> PDict [(''pretrained'', PBool True), (''depth'', PInt 3)]]"
  by (simp add: shared_key_differs_def fun_upd_twist)

section \<open>Properties of \<^verbatim>\<open>populate_defaults\<close>\<close>

lemma and_then_Return_iff:
  "and_then m f = Return c' \<longleftrightarrow> (\<exists>c1. m = Return c1 \<and> f c1 = Return c')"
  by (cases m) auto

lemma and_then_Raise_left: "m = Raise e c' \<Longrightarrow> and_then m f = Raise e c'"
  by simp

lemma extends_scalar:
  "extends c c' \<Longrightarrow> c k = Some v \<Longrightarrow> v \<noteq> PNone \<Longrightarrow> as_dict v = None \<Longrightarrow> c' k = Some v"
  unfolding extends_def by (auto dest!: spec[of _ k])


lemma layer_dataset_extends: "extends c (state_of (layer_dataset P c))"
  by (auto simp: layer_dataset_def extends_refl config_extends split: option.splits sum.splits)

lemma layer_split_extends: "extends c (state_of (layer_split P c))"
  by (auto simp: layer_split_def extends_refl config_extends split: option.splits sum.splits bool.splits)

lemma layer_algorithm_extends: "extends c (state_of (layer_algorithm P c))"
  by (auto simp: layer_algorithm_def extends_refl config_extends split: option.splits sum.splits)

lemma layer_loader_extends: "extends c (state_of (layer_loader P c))"
  by (simp add: layer_loader_def config_extends)

lemma layer_model_extends: "extends c (state_of (layer_model P c))"
  by (auto simp: layer_model_def extends_refl config_extends split: option.splits sum.splits)

lemma layer_scheduler_extends: "extends c (state_of (layer_scheduler P c))"
  by (auto simp: layer_scheduler_def extends_refl config_extends split: option.splits sum.splits)

lemma run_layers_extends:
  "(\<And>l c. l \<in> set ls \<Longrightarrow> extends c (state_of (l c))) \<Longrightarrow> extends c (state_of (run_layers ls c))"
proof (induction ls arbitrary: c)
  case Nil
  show ?case by (simp add: extends_refl)
next
  case (Cons l ls)
  have "extends c (state_of (and_then (l c) (run_layers ls)))"
  proof (rule and_then_state)
    show "extends c (state_of (l c))" by (rule Cons.prems) simp
  next
    fix c' show "extends c' (state_of (run_layers ls c'))"
      by (rule Cons.IH) (rule Cons.prems, simp)
  qed
  then show ?case by simp
qed


lemma cascade_run_layers:
  "cascade P c = run_layers [layer_dataset P, layer_split P, layer_algorithm P,
                             layer_loader P, layer_model P, layer_scheduler P] c"
proof -
  have r: "and_then m Return = m" for m by (cases m) simp_all
  have n: "run_layers [] = Return" by (rule ext) simp
  have s: "run_layers (l # ls) = (\<lambda>c. and_then (l c) (run_layers ls))" for l ls
    by (rule ext) simp
  show ?thesis unfolding cascade_def s n r ..
qed

lemma layers_extend:
  "l \<in> set [layer_dataset P, layer_split P, layer_algorithm P,
             layer_loader P, layer_model P, layer_scheduler P] \<Longrightarrow> extends c (state_of (l c))"
  by (auto simp: layer_dataset_extends layer_split_extends layer_algorithm_extends
        layer_loader_extends layer_model_extends layer_scheduler_extends)

lemma cascade_extends: "extends c (state_of (cascade P c))"
  unfolding cascade_run_layers by (rule run_layers_extends) (rule layers_extend)

lemma check_required_state: "state_of (check_required fs c) = c"
  by (induction fs) (auto split: option.splits)

lemma misc_defaults_other:
  "k \<noteq> ''no_group_logging'' \<Longrightarrow> state_of (misc_defaults c) k = c k"
  by (auto simp: misc_defaults_def Let_def split: option.splits)

lemma state_of_and_then:
  "state_of (and_then m f) = (case m of Return c \<Rightarrow> state_of (f c) | Raise e c \<Rightarrow> c)"
  by (cases m) simp_all

lemma rest_keeps:
  assumes "c0 k = Some v" "v \<noteq> PNone" "as_dict v = None" "k \<noteq> ''no_group_logging''"
  shows "state_of (and_then (cascade P c0) (\<lambda>c. and_then (misc_defaults c) (check_required required_fields))) k = Some v"
proof -
  have c1: "state_of (cascade P c0) k = Some v"
    using cascade_extends assms(1-3) by (rule extends_scalar)
  show ?thesis
  proof (cases "cascade P c0")
    case (Raise e c1)
    with c1 show ?thesis by simp
  next
    case (Return c1')
    with c1 have k1: "c1' k = Some v" by simp
    have "state_of (and_then (misc_defaults c1') (check_required required_fields)) k = Some v"
      using misc_defaults_other[OF assms(4), of c1'] k1
      by (cases "misc_defaults c1'") (simp_all add: check_required_state)
    with Return show ?thesis by simp
  qed
qed


lemma check_required_all_set:
  assumes "\<forall>f \<in> set fs. \<exists>v. c f = Some v \<and> v \<noteq> PNone"
  shows "check_required fs c = Return c"
  using assms by (induction fs) auto

lemma assert_specified_cases:
  "assert_specified f m c = (if specified c f then Return c
     else Raise (case c f of None \<Rightarrow> AttributeError f | Some v \<Rightarrow> AssertionError m []) c)"
  by (auto simp: assert_specified_def specified_def split: option.splits)

lemma check_groups_cases:
  "check_groups_per_batch f m c =
     (case c f of
        None \<Rightarrow> Raise (AttributeError f) c
      | Some v \<Rightarrow> if v = PNone then Return (c(f \<mapsto> PInt 1))
                  else if preset_not_one c f then Raise (ValueError m [v]) c else Return c)"
  by (auto simp: check_groups_per_batch_def preset_not_one_def split: option.splits)

lemma validate_dann_state: "state_of (validate_dann c) = c"
  by (auto simp: validate_dann_def split: option.splits)

lemma validate_dann_Return: "validate_dann c = Return c' \<Longrightarrow> c' = c"
  using validate_dann_state[of c] by simp

lemma validate_dann_Raise: "validate_dann c = Raise e c' \<Longrightarrow> c' = c"
  using validate_dann_state[of c] by simp

lemma validate_fsd_unfold:
  assumes "c ''groupby_fields'' = Some g" and "py_eq g (PList [PStr ''from_source_domain''])"
  shows "\<exists>m1 m2. validate_from_source_domain c
           = and_then (check_groups_per_batch ''n_groups_per_batch'' m1 c)
               (check_groups_per_batch ''unlabeled_n_groups_per_batch'' m2)"
  unfolding validate_from_source_domain_def by (simp only: assms option.case if_True) blast

lemma check_groups_Return:
  "check_groups_per_batch f m c = Return c' \<Longrightarrow> c' = default_one f c \<and> \<not> preset_not_one c f"
  by (auto simp: check_groups_cases default_one_def preset_not_one_def split: option.splits if_splits)

lemma check_groups_Raise:
  "preset_not_one c f \<Longrightarrow> \<exists>e. check_groups_per_batch f m c = Raise e c"
  by (auto simp: check_groups_cases preset_not_one_def split: option.splits if_splits)

lemma check_groups_state:
  "state_of (check_groups_per_batch f m c) = default_one f c"
  by (auto simp: check_groups_cases default_one_def split: option.splits if_splits)

lemma validate_fsd_Return:
  assumes "c ''groupby_fields'' = Some g" and "py_eq g (PList [PStr ''from_source_domain''])"
    and "validate_from_source_domain c = Return c0"
  shows "c0 = default_one ''unlabeled_n_groups_per_batch'' (default_one ''n_groups_per_batch'' c)"
proof -
  from validate_fsd_unfold[where c=c and g=g, OF assms(1,2)] obtain m1 m2 where
    u: "validate_from_source_domain c
           = and_then (check_groups_per_batch ''n_groups_per_batch'' m1 c)
               (check_groups_per_batch ''unlabeled_n_groups_per_batch'' m2)" by blast
  from assms(3)[unfolded u and_then_Return_iff] obtain c1 where
    "check_groups_per_batch ''n_groups_per_batch'' m1 c = Return c1"
    "check_groups_per_batch ''unlabeled_n_groups_per_batch'' m2 c1 = Return c0" by blast
  then show ?thesis using check_groups_Return by blast
qed

lemma validate_fsd_Raise:
  assumes "c ''groupby_fields'' = Some g" and "py_eq g (PList [PStr ''from_source_domain''])"
    and "preset_not_one c ''n_groups_per_batch'' \<or> preset_not_one c ''unlabeled_n_groups_per_batch''"
  shows "\<exists>e c'. validate_from_source_domain c = Raise e c'
           \<and> (c' = c \<or> c' = c(''n_groups_per_batch'' \<mapsto> PInt 1))"
proof -
  from validate_fsd_unfold[where c=c and g=g, OF assms(1,2)] obtain m1 m2 where
    u: "validate_from_source_domain c
           = and_then (check_groups_per_batch ''n_groups_per_batch'' m1 c)
               (check_groups_per_batch ''unlabeled_n_groups_per_batch'' m2)" by blast
  show ?thesis
  proof (cases "check_groups_per_batch ''n_groups_per_batch'' m1 c")
    case (Raise e c')
    then have "c' = c" using check_groups_state[of "''n_groups_per_batch''" m1 c]
      by (auto simp: check_groups_cases split: option.splits if_splits)
    with Raise u show ?thesis by simp
  next
    case (Return c1)
    from check_groups_Return[OF this]
    have c1: "c1 = default_one ''n_groups_per_batch'' c" and n: "\<not> preset_not_one c ''n_groups_per_batch''"
      by simp_all
    from n assms(3) have "preset_not_one c ''unlabeled_n_groups_per_batch''" by simp
    then have "preset_not_one c1 ''unlabeled_n_groups_per_batch''"
      by (simp add: c1 preset_not_one_def default_one_def)
    from check_groups_Raise[OF this, of m2] obtain e where
      "check_groups_per_batch ''unlabeled_n_groups_per_batch'' m2 c1 = Raise e c1" by blast
    moreover have "c1 = c \<or> c1 = c(''n_groups_per_batch'' \<mapsto> PInt 1)"
      by (simp add: c1 default_one_def)
    ultimately show ?thesis using u Return by auto
  qed
qed

lemma validations_Return:
  assumes "c ''groupby_fields'' = Some g" and "py_eq g (PList [PStr ''from_source_domain''])"
    and "validations c = Return c0"
  shows "c0 = default_one ''unlabeled_n_groups_per_batch'' (default_one ''n_groups_per_batch'' c)"
proof -
  from assms(3) obtain c1 where
    "validate_from_source_domain c = Return c1" "validate_dann c1 = Return c0"
    unfolding validations_def
    by (auto simp: and_then_Return_iff assert_specified_cases split: if_splits)
  with validate_fsd_Return[where c=c and g=g and ?c0.0=c1, OF assms(1,2)] validate_dann_Return[of c1 c0]
  show ?thesis by simp
qed

lemma validations_Raise:
  assumes "c ''groupby_fields'' = Some g" and "py_eq g (PList [PStr ''from_source_domain''])"
    and "preset_not_one c ''n_groups_per_batch'' \<or> preset_not_one c ''unlabeled_n_groups_per_batch''"
  shows "\<exists>e c'. validations c = Raise e c' \<and> (c' = c \<or> c' = c(''n_groups_per_batch'' \<mapsto> PInt 1))"
proof -
  from validate_fsd_Raise[where c=c and g=g, OF assms] obtain e c' where
    r: "validate_from_source_domain c = Raise e c'"
       "c' = c \<or> c' = c(''n_groups_per_batch'' \<mapsto> PInt 1)" by blast
  show ?thesis
    unfolding validations_def using r
    by (auto simp: assert_specified_cases)
qed

lemma default_one_get:
  "default_one f c k = (if k = f \<and> c f = Some PNone then Some (PInt 1) else c k)"
  by (simp add: default_one_def)

section \<open>Claims on \<^verbatim>\<open>populate_defaults\<close>\<close>

text \<open>
  Claim C7. For every settings object with \<^verbatim>\<open>groupby_fields == ['from_source_domain']\<close>:
  when \<^verbatim>\<open>n_groups_per_batch\<close> (respectively \<^verbatim>\<open>unlabeled_n_groups_per_batch\<close>) is
  null, the settings object that \<^verbatim>\<open>populate_defaults\<close> returns has it set to 1; when
  either is given a value other than 1, \<^verbatim>\<open>populate_defaults\<close> raises, the exception
  is the one of the validations (lines 10 to 35), and at that point no preset has been
  applied: the settings object is as it was given, but for \<^verbatim>\<open>n_groups_per_batch\<close> set
  to 1 when it was null and the other count is the offending one.
\<close>

theorem populate_defaults_from_source_domain:
  assumes "c ''groupby_fields'' = Some g" and "py_eq g (PList [PStr ''from_source_domain''])"
  shows "(\<forall>c'. populate_defaults P c = Return c' \<longrightarrow>
            (c ''n_groups_per_batch'' = Some PNone \<longrightarrow> c' ''n_groups_per_batch'' = Some (PInt 1))
          \<and> (c ''unlabeled_n_groups_per_batch'' = Some PNone \<longrightarrow>
               c' ''unlabeled_n_groups_per_batch'' = Some (PInt 1)))
       \<and> (preset_not_one c ''n_groups_per_batch'' \<or> preset_not_one c ''unlabeled_n_groups_per_batch'' \<longrightarrow>
            (\<exists>e c'. populate_defaults P c = Raise e c' \<and> validations c = Raise e c'
                \<and> (c' = c \<or> c' = c(''n_groups_per_batch'' \<mapsto> PInt 1))))"
proof (intro conjI allI impI)
  fix c' assume ret: "populate_defaults P c = Return c'"
  then obtain c0 where v: "validations c = Return c0"
    and rest: "and_then (cascade P c0) (\<lambda>c. and_then (misc_defaults c) (check_required required_fields)) = Return c'"
    unfolding populate_defaults_def by (auto simp: and_then_Return_iff)
  note c0 = validations_Return[where c=c and g=g, OF assms v]
  have keep: "c' k = Some (PInt 1)" if "c0 k = Some (PInt 1)" "k \<noteq> ''no_group_logging''" for k
    using rest_keeps[of c0 k "PInt 1" P] that rest by simp
  { assume "c ''n_groups_per_batch'' = Some PNone"
    then have "c0 ''n_groups_per_batch'' = Some (PInt 1)" by (simp add: c0 default_one_get)
    then show "c' ''n_groups_per_batch'' = Some (PInt 1)" by (rule keep) simp }
  { assume "c ''unlabeled_n_groups_per_batch'' = Some PNone"
    then have "c0 ''unlabeled_n_groups_per_batch'' = Some (PInt 1)" by (simp add: c0 default_one_get)
    then show "c' ''unlabeled_n_groups_per_batch'' = Some (PInt 1)" by (rule keep) simp }
next
  assume "preset_not_one c ''n_groups_per_batch'' \<or> preset_not_one c ''unlabeled_n_groups_per_batch''"
  from validations_Raise[where c=c and g=g, OF assms this] obtain e c' where
    "validations c = Raise e c'" "c' = c \<or> c' = c(''n_groups_per_batch'' \<mapsto> PInt 1)" by blast
  then show "\<exists>e c'. populate_defaults P c = Raise e c' \<and> validations c = Raise e c'
                \<and> (c' = c \<or> c' = c(''n_groups_per_batch'' \<mapsto> PInt 1))"
    unfolding populate_defaults_def by auto
qed

theorem populate_defaults_from_source_domain_witness:
  "example_config ''groupby_fields'' = Some (PList [PStr ''from_source_domain''])
   \<and> py_eq (PList [PStr ''from_source_domain'']) (PList [PStr ''from_source_domain''])
   \<and> example_config ''n_groups_per_batch'' = Some PNone
   \<and> example_config ''unlabeled_n_groups_per_batch'' = Some PNone
   \<and> (\<exists>c'. populate_defaults example_presets example_config = Return c'
         \<and> c' ''n_groups_per_batch'' = Some (PInt 1)
         \<and> c' ''unlabeled_n_groups_per_batch'' = Some (PInt 1))"
proof -
  have g: "example_config ''groupby_fields'' = Some (PList [PStr ''from_source_domain''])"
    by (simp add: example_config_def)
  have e: "py_eq (PList [PStr ''from_source_domain'']) (PList [PStr ''from_source_domain''])"
    by simp
  have n: "example_config ''n_groups_per_batch'' = Some PNone"
    and u: "example_config ''unlabeled_n_groups_per_batch'' = Some PNone"
    by (simp_all add: example_config_def)
  have "raised (populate_defaults example_presets example_config) = None"
    by (simp add: populate_defaults_def validations_def cascade_def assert_specified_def
        validate_from_source_domain_def check_groups_per_batch_def validate_dann_def
        layer_dataset_def layer_split_def layer_algorithm_def layer_loader_def layer_model_def
        layer_scheduler_def misc_defaults_def required_fields_def table_get_def table_has_def
        example_presets_def example_config_def)
  then obtain c' where r: "populate_defaults example_presets example_config = Return c'"
    by (cases "populate_defaults example_presets example_config") simp_all
  from populate_defaults_from_source_domain[where c=example_config and P=example_presets, OF g e] r n u
  have "c' ''n_groups_per_batch'' = Some (PInt 1) \<and> c' ''unlabeled_n_groups_per_batch'' = Some (PInt 1)"
    by blast
  with g e n u r show ?thesis by blast
qed







section \<open>Properties of the penalty algorithm\<close>

lemma fadd_zero: "fadd l (Fin 0) = l"
  by (cases l) simp_all

lemma finish_value:
  assumes "results ''y_pred'' = Some yp" and "results ''y_true'' = Some yt"
  shows "finish self results p
         = (Inr (fadd (loss_compute self yp yt) (fmul p (Fin (penalty_weight self)))),
            results(''penalty'' \<mapsto> RFloat p))"
  using assms by (simp add: finish_def)

lemma finish_state: "snd (finish self results p) = results(''penalty'' \<mapsto> RFloat p)"
  by (simp add: finish_def Let_def split: option.splits)

lemma finish_Inr:
  "fst (finish self results p) = Inr v \<Longrightarrow>
     \<exists>yp yt. results ''y_pred'' = Some yp \<and> results ''y_true'' = Some yt
        \<and> v = fadd (loss_compute self yp yt) (fmul p (Fin (penalty_weight self)))"
  by (auto simp: finish_def Let_def split: option.splits)

lemma training_penalty_state:
  "snd (training_penalty fv results) = results
   \<or> snd (training_penalty fv results) = results(''unlabeled_features'' := None)"
  by (auto simp: training_penalty_def Let_def split: option.splits sum.splits)

lemma training_penalty_state_Inr:
  "fst (training_penalty fv results) = Inr p \<Longrightarrow>
   snd (training_penalty fv results) = results(''unlabeled_features'' := None)"
  by (auto simp: training_penalty_def Let_def split: option.splits sum.splits)


















lemma pairs_set_aux:
  "set (concat (map (\<lambda>i. map (\<lambda>j. (i, j)) [i + 1..<m]) is)) = {(i, j). i \<in> set is \<and> i < j \<and> j < m}"
  by (induction "is") auto

lemma index_pairs_set: "set (index_pairs m) = {(i, j). i < j \<and> j < m}"
  unfolding index_pairs_def pairs_set_aux by auto

lemma pairs_distinct_aux:
  "distinct is \<Longrightarrow> distinct (concat (map (\<lambda>i. map (\<lambda>j. (i, j)) [i + 1..<m]) is))"
proof (induction "is")
  case Nil
  show ?case by simp
next
  case (Cons i "is")
  have "distinct (map (\<lambda>j. (i, j)) [i + 1..<m])"
    by (simp add: distinct_map inj_on_def)
  moreover have "set (map (\<lambda>j. (i, j)) [i + 1..<m])
      \<inter> set (concat (map (\<lambda>i. map (\<lambda>j. (i, j)) [i + 1..<m]) is)) = {}"
    using Cons.prems unfolding pairs_set_aux by auto
  ultimately show ?case using Cons by simp
qed

lemma index_pairs_distinct: "distinct (index_pairs m)"
  unfolding index_pairs_def by (rule pairs_distinct_aux) simp

lemma pairs_count_aux: "sum_list (map (\<lambda>i. m - Suc i) [0..<m]) = m choose 2"
proof (induction m)
  case 0
  show ?case by simp
next
  case (Suc m)
  have "[0..<Suc m] = 0 # map Suc [0..<m]"
    by (simp add: upt_conv_Cons map_Suc_upt del: upt_Suc)
  then have "sum_list (map (\<lambda>i. Suc m - Suc i) [0..<Suc m])
           = m + sum_list (map (\<lambda>i. m - Suc i) [0..<m])"
    by (simp add: comp_def del: upt_Suc)
  also have "\<dots> = Suc m choose 2"
    using Suc.IH by (simp add: numeral_2_eq_2)
  finally show ?case .
qed

lemma index_pairs_length: "length (index_pairs m) = m choose 2"
  using pairs_count_aux[of m] by (simp add: index_pairs_def length_concat comp_def)

lemma real_choose_two: "real (m choose 2) = real m * (real m - 1) / 2"
proof (induction m)
  case 0
  show ?case by simp
next
  case (Suc m)
  have "Suc m choose 2 = m + (m choose 2)" by (simp add: numeral_2_eq_2)
  then show ?case using Suc.IH by (simp add: field_simps)
qed

lemma penalty_loop_total:
  assumes "\<And>p. p \<in> set ps \<Longrightarrow> f p = Inr (h p)"
  shows "penalty_loop f a ps = Inr (foldl fadd a (map h ps))"
  using assms by (induction ps arbitrary: a) simp_all

lemma select_list_ok:
  "(\<And>i. i \<in> set indices \<Longrightarrow> i < length xs) \<Longrightarrow> select_list xs indices = Inr (map (\<lambda>i. xs ! i) indices)"
  by (induction indices) simp_all

lemma select_ok:
  assumes "\<And>i. i \<in> set indices \<Longrightarrow> i < examples t"
  shows "\<exists>t'. select t indices = Inr t' \<and> view_rows t' = group_rows t indices \<and> same_shape t t'"
  using assms by (cases t) (simp_all add: select_list_ok)

lemma coral_penalty_same_shape:
  "same_shape x y \<Longrightarrow> coral_penalty x y = Inr (coral_rows (width x) (view_rows x) (view_rows y))"
  by (cases x; cases y) simp_all

lemma same_shape_width: "same_shape x y \<Longrightarrow> width y = width x"
  by (cases x; cases y) simp_all

lemma same_shape_trans: "same_shape x y \<Longrightarrow> same_shape y z \<Longrightarrow> same_shape x z"
  by (cases x; cases y; cases z) simp_all

lemma same_shape_sym: "same_shape x y \<Longrightarrow> same_shape y x"
  by (cases x; cases y) simp_all

lemma same_shape_refl: "same_shape x x"
  by (cases x) simp_all

lemma indices_of_set: "i \<in> set (indices_of g u) \<longleftrightarrow> i < length g \<and> g ! i = u"
  by (auto simp: indices_of_def)

lemma unique_groups_props: "distinct (unique_groups g)" "set (unique_groups g) = set g"
  by (simp_all add: unique_groups_def)

lemma fsq_swap: "fmul (fsub a b) (fsub a b) = fmul (fsub b a) (fsub b a)"
  by (cases a; cases b) (simp_all add: power2_commute[unfolded power2_eq_square])

lemma squares_map2_swap: "squares (map2 fsub xs ys) = squares (map2 fsub ys xs)"
proof (induction xs arbitrary: ys)
  case Nil
  show ?case by simp
next
  case (Cons x xs)
  then show ?case by (cases ys) (simp_all add: squares_def fsq_swap)
qed

lemma squares_append: "squares (xs @ ys) = squares xs @ squares ys"
  by (simp add: squares_def)

lemma squares_concat_swap:
  "squares (concat (map2 (map2 fsub) A B)) = squares (concat (map2 (map2 fsub) B A))"
proof (induction A arbitrary: B)
  case Nil
  show ?case by simp
next
  case (Cons a A)
  show ?case
  proof (cases B)
    case Nil
    then show ?thesis by simp
  next
    case (Cons b B')
    then show ?thesis using Cons.IH[of B'] squares_map2_swap[of a b]
      by (simp add: squares_append)
  qed
qed

lemma fadd_commute: "fadd a b = fadd b a"
  by (cases a; cases b) simp_all

lemma coral_rows_sym: "coral_rows d x y = coral_rows d y x"
  by (simp add: coral_rows_def Let_def squares_map2_swap[of "mean0 d x"] 
        squares_concat_swap[of "covariance d (centered (mean0 d x) x)"])

lemma index_pairs_small: "m < 2 \<Longrightarrow> index_pairs m = []"
proof -
  assume "m < 2"
  then have "m = 0 \<or> m = 1" by auto
  then show ?thesis by (auto simp: index_pairs_def)
qed

lemma mean_penalty_value:
  assumes len: "length gi = length G"
    and grp: "\<And>k. k < length G \<Longrightarrow>
        \<exists>t. group_features n_l lab unl gi k = Inr t \<and> view_rows t = G ! k \<and> same_shape F t"
  shows "mean_penalty n_l lab unl gi (length G) = Inr (mean_pairwise (width F) G)"
proof -
  let ?h = "\<lambda>p. coral_rows (width F) (G ! fst p) (G ! snd p)"
  have pp: "pair_penalty n_l lab unl gi p = Inr (?h p)" if "p \<in> set (index_pairs (length G))" for p
  proof -
    from that have lt: "fst p < length G" "snd p < length G"
      by (auto simp: index_pairs_set)
    from grp[OF lt(1)] obtain x where x: "group_features n_l lab unl gi (fst p) = Inr x"
      "view_rows x = G ! fst p" "same_shape F x" by blast
    from grp[OF lt(2)] obtain y where y: "group_features n_l lab unl gi (snd p) = Inr y"
      "view_rows y = G ! snd p" "same_shape F y" by blast
    have xy: "same_shape x y" using x(3) y(3) by (blast intro: same_shape_trans same_shape_sym)
    have "width x = width F" using x(3) by (rule same_shape_width)
    then show ?thesis
      by (simp add: pair_penalty_def x(1,2) y(1,2) coral_penalty_same_shape[OF xy])
  qed
  have loop: "penalty_loop (pair_penalty n_l lab unl gi) (Fin 0) (index_pairs (length G))
        = Inr (pairwise_sum (width F) G)"
    unfolding pairwise_sum_def fsum_def by (rule penalty_loop_total) (rule pp)
  show ?thesis
  proof (cases "2 \<le> length G")
    case True
    then show ?thesis
      by (simp add: mean_penalty_def loop mean_pairwise_def real_choose_two)
  next
    case False
    then have "index_pairs (length G) = []" by (intro index_pairs_small) simp
    then have "pairwise_sum (width F) G = Fin 0" by (simp add: pairwise_sum_def fsum_def)
    with False show ?thesis by (simp add: mean_penalty_def loop mean_pairwise_def)
  qed
qed

lemma groups_of_select:
  assumes "length g \<le> examples T" and "k < length (unique_groups g)"
  shows "\<exists>t. select T (map (indices_of g) (unique_groups g) ! k) = Inr t
           \<and> view_rows t = groups_of T g ! k \<and> same_shape T t"
proof -
  have "i < examples T" if "i \<in> set (indices_of g (unique_groups g ! k))" for i
    using that assms(1) by (simp add: indices_of_set)
  from select_ok[of "indices_of g (unique_groups g ! k)" T, OF this]
  show ?thesis using assms(2) by (simp add: groups_of_def)
qed

lemma length_groups_of: "length (groups_of T g) = length (unique_groups g)"
  by (simp add: groups_of_def)

lemma training_penalty_labeled:
  assumes "r ''g'' = Some (RInts g)" and "r ''unlabeled_features'' = None"
  shows "training_penalty fv r
         = (mean_penalty (length (unique_groups g)) fv None
              (map (indices_of g) (unique_groups g)) (length (unique_groups g)), r)"
  unfolding training_penalty_def split_into_groups_def Let_def
  by (simp only: assms option.case as_ints.simps sum.case fst_conv snd_conv)

lemma training_penalty_unlabeled:
  assumes "r ''g'' = Some (RInts g)" and "r ''unlabeled_features'' = Some uv"
    and "r ''unlabeled_g'' = Some (RInts ug)"
  shows "training_penalty fv r
         = (mean_penalty (length (unique_groups g)) fv (Some uv)
              (map (indices_of g) (unique_groups g) @ map (indices_of ug) (unique_groups ug))
              (length (unique_groups g) + length (unique_groups ug)),
            r(''unlabeled_features'' := None))"
proof -
  have u: "(r(''unlabeled_features'' := None)) ''unlabeled_g'' = Some (RInts ug)"
    using assms(3) by simp
  show ?thesis
    unfolding training_penalty_def split_into_groups_def Let_def
    by (simp only: assms(1,2) u option.case as_ints.simps sum.case fst_conv snd_conv)
qed

lemma training_penalty_value:
  assumes "r ''g'' = Some (RInts g)" and "length g \<le> examples F"
    and "r ''unlabeled_features'' = map_option (\<lambda>(U, ug). RTensor U) unl"
    and "\<forall>U ug. unl = Some (U, ug) \<longrightarrow>
           r ''unlabeled_g'' = Some (RInts ug) \<and> length ug \<le> examples U \<and> same_shape F U"
  shows "training_penalty (RTensor F) r
         = (Inr (mean_pairwise (width F) (batch_groups F g unl)), r(''unlabeled_features'' := None))"
proof (cases unl)
  case None
  let ?gi = "map (indices_of g) (unique_groups g)"
  have G: "batch_groups F g None = groups_of F g" by (simp add: batch_groups_def)
  have "mean_penalty (length (unique_groups g)) (RTensor F) None ?gi (length (groups_of F g))
        = Inr (mean_pairwise (width F) (groups_of F g))"
  proof (rule mean_penalty_value)
    show "length ?gi = length (groups_of F g)" by (simp add: length_groups_of)
  next
    fix k assume "k < length (groups_of F g)"
    then have k: "k < length (unique_groups g)" by (simp add: length_groups_of)
    from groups_of_select[OF assms(2) k]
    show "\<exists>t. group_features (length (unique_groups g)) (RTensor F) None ?gi k = Inr t
         \<and> view_rows t = groups_of F g ! k \<and> same_shape F t"
      using k by (simp add: group_features_def)
  qed
  moreover have "r(''unlabeled_features'' := None) = r"
    using assms(3) None by (auto simp: fun_eq_iff)
  moreover have "r ''unlabeled_features'' = None" using assms(3) None by simp
  ultimately show ?thesis
    unfolding None G using training_penalty_labeled[where r=r and g=g and fv="RTensor F", OF assms(1)]
    by (simp only: length_groups_of)
next
  case (Some a)
  obtain U ug where a: "a = (U, ug)" by (cases a)
  from assms(4) Some a have ug: "r ''unlabeled_g'' = Some (RInts ug)"
    and lu: "length ug \<le> examples U" and sh: "same_shape F U" by auto
  let ?nl = "length (unique_groups g)"
  let ?gi = "map (indices_of g) (unique_groups g) @ map (indices_of ug) (unique_groups ug)"
  let ?G = "groups_of F g @ groups_of U ug"
  have G: "batch_groups F g (Some (U, ug)) = ?G" by (simp add: batch_groups_def)
  have "mean_penalty ?nl (RTensor F) (Some (RTensor U)) ?gi (length ?G)
        = Inr (mean_pairwise (width F) ?G)"
  proof (rule mean_penalty_value)
    show "length ?gi = length ?G" by (simp add: length_groups_of)
  next
    fix k assume kl: "k < length ?G"
    show "\<exists>t. group_features ?nl (RTensor F) (Some (RTensor U)) ?gi k = Inr t
         \<and> view_rows t = ?G ! k \<and> same_shape F t"
    proof (cases "k < ?nl")
      case True
      from groups_of_select[OF assms(2) True] True show ?thesis
        by (simp add: group_features_def nth_append length_groups_of)
    next
      case False
      with kl have k': "k - ?nl < length (unique_groups ug)" by (simp add: length_groups_of)
      from groups_of_select[OF lu k'] obtain t where
        t: "select U (map (indices_of ug) (unique_groups ug) ! (k - ?nl)) = Inr t"
           "view_rows t = groups_of U ug ! (k - ?nl)" "same_shape U t" by blast
      have "same_shape F t" using sh t(3) by (rule same_shape_trans)
      with t(1,2) False show ?thesis
        by (simp add: group_features_def nth_append length_groups_of)
    qed
  qed
  moreover have "r ''unlabeled_features'' = Some (RTensor U)" using assms(3) Some a by simp
  ultimately show ?thesis
    unfolding Some a G
    using training_penalty_unlabeled[where r=r and g=g and ug=ug and uv="RTensor U" and fv="RTensor F", OF assms(1) _ ug]
    by (simp only: length_groups_of length_append)
qed

lemma example_objective_value:
  "fst (objective example_algorithm example_results) = Inr (Fin 5)"
  by code_simp

lemma example_batch_mean:
  "mean_pairwise 1 (batch_groups (Mat 1 [[Fin 1], [Fin 2], [Fin 3], [Fin 6]]) [0, 1, 0, 1] None) = Fin 40"
  by code_simp

section \<open>Claims on the penalty algorithm\<close>

text \<open>
  Claim C4, as the code has it. In training mode, for a results mapping as
  \<^verbatim>\<open>process_batch\<close> makes it (features and group identifiers of the labeled batch, and
  of the unlabeled batch when there is one, with as many identifiers as examples and
  features of one shape; predictions and labels), \<^verbatim>\<open>objective\<close> returns the base loss
  plus the penalty weight times the mean penalty, where
  \<^item> the groups are those of \<open>batch_groups\<close>: the examples are partitioned by group
    identifier, the unlabeled groups coming after the labeled ones;
  \<^item> the penalty is summed over the index pairs \<open>i < j\<close> of the \<open>n\<close> groups, each
    unordered pair once, there are \<open>C(n, 2)\<close> of them, and the penalty of a pair is symmetric;
  \<^item> with at least two groups the sum is divided by \<open>C(n, 2)\<close>; with fewer than two groups
    there is no pair and no division (line 125), the penalty is 0 and the objective is the
    base loss.
\<close>

theorem objective_training_mean_pairwise_penalty:
  assumes "is_training self"
    and "results ''features'' = Some (RTensor F)"
    and "results ''g'' = Some (RInts g)" and "length g \<le> examples F"
    and "results ''unlabeled_features'' = map_option (\<lambda>(U, ug). RTensor U) unl"
    and "\<forall>U ug. unl = Some (U, ug) \<longrightarrow>
           results ''unlabeled_g'' = Some (RInts ug) \<and> length ug \<le> examples U \<and> same_shape F U"
    and "results ''y_pred'' = Some yp" and "results ''y_true'' = Some yt"
  shows "fst (objective self results)
           = Inr (fadd (loss_compute self yp yt)
                    (fmul (mean_pairwise (width F) (batch_groups F g unl)) (Fin (penalty_weight self))))
       \<and> (2 \<le> length (batch_groups F g unl) \<longrightarrow>
            fst (objective self results)
              = Inr (claimed_objective (loss_compute self yp yt) (penalty_weight self)
                       (pairwise_sum (width F) (batch_groups F g unl)) (length (batch_groups F g unl))))
       \<and> (length (batch_groups F g unl) < 2 \<longrightarrow>
            fst (objective self results) = Inr (loss_compute self yp yt))
       \<and> distinct (index_pairs (length (batch_groups F g unl)))
       \<and> set (index_pairs (length (batch_groups F g unl)))
            = {(i, j). i < j \<and> j < length (batch_groups F g unl)}
       \<and> length (index_pairs (length (batch_groups F g unl))) = length (batch_groups F g unl) choose 2
       \<and> (\<forall>x y. coral_rows (width F) x y = coral_rows (width F) y x)
       \<and> distinct (unique_groups g) \<and> set (unique_groups g) = set g
       \<and> (\<forall>u i. i \<in> set (indices_of g u) \<longleftrightarrow> i < length g \<and> g ! i = u)"
proof -
  let ?r = "results(''features'' := None)"
  have tp: "training_penalty (RTensor F) ?r
         = (Inr (mean_pairwise (width F) (batch_groups F g unl)), ?r(''unlabeled_features'' := None))"
    by (rule training_penalty_value) (use assms in simp_all)
  have v: "fst (objective self results)
           = Inr (fadd (loss_compute self yp yt)
                    (fmul (mean_pairwise (width F) (batch_groups F g unl)) (Fin (penalty_weight self))))"
    using assms(1,2,7,8) by (simp add: objective_def tp finish_def)
  have big: "2 \<le> length (batch_groups F g unl) \<Longrightarrow>
            fst (objective self results)
              = Inr (claimed_objective (loss_compute self yp yt) (penalty_weight self)
                       (pairwise_sum (width F) (batch_groups F g unl)) (length (batch_groups F g unl)))"
    by (simp add: v mean_pairwise_def claimed_objective_def)
  have small: "length (batch_groups F g unl) < 2 \<Longrightarrow>
            fst (objective self results) = Inr (loss_compute self yp yt)"
    by (simp add: v mean_pairwise_def fadd_zero)
  show ?thesis
  proof (intro conjI impI allI)
    show "fst (objective self results)
           = Inr (fadd (loss_compute self yp yt)
                    (fmul (mean_pairwise (width F) (batch_groups F g unl)) (Fin (penalty_weight self))))"
      by (rule v)
  qed (simp_all only: big small index_pairs_distinct index_pairs_set index_pairs_length
         coral_rows_sym[symmetric] unique_groups_props indices_of_set)
qed

theorem objective_training_mean_pairwise_penalty_witness:
  "is_training example_algorithm
   \<and> example_results ''features'' = Some (RTensor (Mat 1 [[Fin 1], [Fin 2], [Fin 3], [Fin 6]]))
   \<and> example_results ''g'' = Some (RInts [0, 1, 0, 1])
   \<and> length [0, 1, 0, 1 :: int] \<le> examples (Mat 1 [[Fin 1], [Fin 2], [Fin 3], [Fin 6]])
   \<and> example_results ''unlabeled_features'' = None
   \<and> length (batch_groups (Mat 1 [[Fin 1], [Fin 2], [Fin 3], [Fin 6]]) [0, 1, 0, 1] None) = 2
   \<and> fst (objective example_algorithm example_results) = Inr (Fin 5)"
proof -
  let ?F = "Mat 1 [[Fin 1], [Fin 2], [Fin 3], [Fin 6]]"
  let ?g = "[0, 1, 0, 1 :: int]"
  have t: "is_training example_algorithm" by (simp add: example_algorithm_def)
  have f: "example_results ''features'' = Some (RTensor ?F)"
    and g: "example_results ''g'' = Some (RInts ?g)"
    and yp: "example_results ''y_pred'' = Some (RTensor (Mat 1 [[Fin 0], [Fin 1], [Fin 1], [Fin 1]]))"
    and yt: "example_results ''y_true'' = Some (RInts [1, 0, 1, 1])"
    and u: "example_results ''unlabeled_features'' = None"
    by (simp_all add: example_results_def)
  have l: "length ?g \<le> examples ?F" by simp
  have u': "example_results ''unlabeled_features'' = map_option (\<lambda>(U, ug). RTensor U) None"
    using u by simp
  have n: "length (batch_groups ?F ?g None) = 2" by code_simp
  from objective_training_mean_pairwise_penalty[where self=example_algorithm
      and results=example_results and F="?F" and g="?g" and unl=None, OF t f g l u' _ yp yt]
  have "fst (objective example_algorithm example_results)
        = Inr (fadd (loss_compute example_algorithm (RTensor (Mat 1 [[Fin 0], [Fin 1], [Fin 1], [Fin 1]]))
                       (RInts [1, 0, 1, 1]))
                 (fmul (mean_pairwise (width ?F) (batch_groups ?F ?g None))
                       (Fin (penalty_weight example_algorithm))))"
    by simp
  then have "fst (objective example_algorithm example_results) = Inr (Fin 5)"
    using example_batch_mean by (simp add: example_algorithm_def)
  with t f g l u n show ?thesis by simp
qed

text \<open>
  The claim fails as it is written: a batch with a single group has no pair, the sum is 0
  and \<open>C(1, 2) = 0\<close>, so the value in the words of the claim is the base loss plus the
  weight times \<open>0 / 0\<close>, which is not a number; the code returns the base loss.
\<close>

theorem objective_single_group_counterexample:
  "length (batch_groups (Mat 1 [[Fin 1], [Fin 2]]) [0, 0] None) = 1
   \<and> pairwise_sum 1 (batch_groups (Mat 1 [[Fin 1], [Fin 2]]) [0, 0] None) = Fin 0
   \<and> claimed_objective (Fin 1) (1 / 10) (Fin 0) 1 = NonFinite
   \<and> fst (objective example_algorithm one_group_results) = Inr (Fin 1)"
  by code_simp

text \<open>
  Claim C5. In evaluation mode, for a results mapping that holds features, predictions and
  labels, \<^verbatim>\<open>objective\<close> returns the base loss plus 0, which is the base loss, whatever
  the group identifiers and the features are.
\<close>

theorem objective_evaluation_is_base_loss:
  assumes "\<not> is_training self"
    and "results ''features'' = Some fv"
    and "results ''y_pred'' = Some yp" and "results ''y_true'' = Some yt"
  shows "fst (objective self results) = Inr (fadd (loss_compute self yp yt) (Fin 0))
       \<and> fst (objective self results) = Inr (loss_compute self yp yt)
       \<and> (\<forall>gv fv'. fst (objective self (results(''g'' \<mapsto> gv, ''features'' \<mapsto> fv')))
                     = fst (objective self results))"
proof -
  have "fst (objective self r) = Inr (fadd (loss_compute self yp yt) (Fin 0))"
    if "r ''features'' = Some f" "r ''y_pred'' = Some yp" "r ''y_true'' = Some yt" for r f
    using that assms(1) by (simp add: objective_def finish_def)
  from this[of results fv] this[of "results(''g'' \<mapsto> gv, ''features'' \<mapsto> fv')" fv' for gv fv'] assms(2-4)
  show ?thesis by (simp add: fadd_zero)
qed

theorem objective_evaluation_is_base_loss_witness:
  "\<not> is_training (example_algorithm\<lparr>is_training := False\<rparr>)
   \<and> example_results ''features'' = Some (RTensor (Mat 1 [[Fin 1], [Fin 2], [Fin 3], [Fin 6]]))
   \<and> example_results ''y_pred'' = Some (RTensor (Mat 1 [[Fin 0], [Fin 1], [Fin 1], [Fin 1]]))
   \<and> example_results ''y_true'' = Some (RInts [1, 0, 1, 1])
   \<and> fst (objective (example_algorithm\<lparr>is_training := False\<rparr>) example_results) = Inr (Fin 1)"
proof -
  have t: "\<not> is_training (example_algorithm\<lparr>is_training := False\<rparr>)" by simp
  have f: "example_results ''features'' = Some (RTensor (Mat 1 [[Fin 1], [Fin 2], [Fin 3], [Fin 6]]))"
    and yp: "example_results ''y_pred'' = Some (RTensor (Mat 1 [[Fin 0], [Fin 1], [Fin 1], [Fin 1]]))"
    and yt: "example_results ''y_true'' = Some (RInts [1, 0, 1, 1])"
    by (simp_all add: example_results_def)
  from objective_evaluation_is_base_loss[where results=example_results, OF t f yp yt]
  have "fst (objective (example_algorithm\<lparr>is_training := False\<rparr>) example_results)
        = Inr (loss_compute (example_algorithm\<lparr>is_training := False\<rparr>)
                 (RTensor (Mat 1 [[Fin 0], [Fin 1], [Fin 1], [Fin 1]])) (RInts [1, 0, 1, 1]))"
    by blast
  then have "fst (objective (example_algorithm\<lparr>is_training := False\<rparr>) example_results) = Inr (Fin 1)"
    by (simp add: example_algorithm_def)
  with t f yp yt show ?thesis by simp
qed




text \<open>
  Claim C10. \<^verbatim>\<open>objective\<close> mutates its argument. Whatever the call does, the keys other
  than \<^verbatim>\<open>features\<close>, \<^verbatim>\<open>unlabeled_features\<close> and \<^verbatim>\<open>penalty\<close> keep their
  bindings. When the call returns a value, the results held \<^verbatim>\<open>features\<close>, and the call
  leaves them with \<^verbatim>\<open>features\<close> removed (and \<^verbatim>\<open>unlabeled_features\<close> too in training
  mode) and with \<^verbatim>\<open>penalty\<close> bound to the penalty as a plain number, the same number
  that enters the returned value.
\<close>

theorem objective_mutates_results:
  "(\<forall>k. k \<noteq> ''features'' \<longrightarrow> k \<noteq> ''unlabeled_features'' \<longrightarrow> k \<noteq> ''penalty'' \<longrightarrow>
        snd (objective self results) k = results k)
   \<and> (\<forall>v. fst (objective self results) = Inr v \<longrightarrow>
        results ''features'' \<noteq> None
        \<and> (\<exists>p yp yt.
              snd (objective self results)
                = (if is_training self
                   then results(''features'' := None, ''unlabeled_features'' := None)
                   else results(''features'' := None))(''penalty'' \<mapsto> RFloat p)
              \<and> results ''y_pred'' = Some yp \<and> results ''y_true'' = Some yt
              \<and> v = fadd (loss_compute self yp yt) (fmul p (Fin (penalty_weight self)))))"
proof (intro conjI allI impI)
  fix k assume k: "k \<noteq> ''features''" "k \<noteq> ''unlabeled_features''" "k \<noteq> ''penalty''"
  show "snd (objective self results) k = results k"
  proof (cases "results ''features''")
    case None
    then show ?thesis by (simp add: objective_def)
  next
    case (Some fv)
    let ?r = "results(''features'' := None)"
    show ?thesis
    proof (cases "is_training self")
      case False
      with Some k show ?thesis by (simp add: objective_def finish_state)
    next
      case True
      obtain res r' where tp: "training_penalty fv ?r = (res, r')"
        by (cases "training_penalty fv ?r")
      from training_penalty_state[of fv ?r] tp have r': "r' k = results k"
        using k by auto
      show ?thesis
        using Some True tp r' k
        by (cases res) (simp_all add: objective_def finish_state)
    qed
  qed
next
  fix v assume v: "fst (objective self results) = Inr v"
  then show "results ''features'' \<noteq> None"
    by (auto simp: objective_def split: option.splits)
  then obtain fv where fv: "results ''features'' = Some fv" by blast
  let ?r = "results(''features'' := None)"
  show "\<exists>p yp yt.
              snd (objective self results)
                = (if is_training self
                   then results(''features'' := None, ''unlabeled_features'' := None)
                   else results(''features'' := None))(''penalty'' \<mapsto> RFloat p)
              \<and> results ''y_pred'' = Some yp \<and> results ''y_true'' = Some yt
              \<and> v = fadd (loss_compute self yp yt) (fmul p (Fin (penalty_weight self)))"
  proof (cases "is_training self")
    case False
    with v fv have f: "fst (finish self ?r (Fin 0)) = Inr v"
      and s: "snd (objective self results) = snd (finish self ?r (Fin 0))"
      by (simp_all add: objective_def)
    from finish_Inr[OF f] s False show ?thesis
      by (auto simp: finish_state)
  next
    case True
    obtain res r' where tp: "training_penalty fv ?r = (res, r')"
      by (cases "training_penalty fv ?r")
    from v fv True tp obtain p where res: "res = Inr p"
      by (cases res) (simp_all add: objective_def)
    from training_penalty_state_Inr[of fv ?r p] tp res
    have r': "r' = ?r(''unlabeled_features'' := None)" by simp
    from v fv True tp res have f: "fst (finish self r' p) = Inr v"
      and s: "snd (objective self results) = snd (finish self r' p)"
      by (simp_all add: objective_def)
    from finish_Inr[OF f] s True show ?thesis
      by (auto simp: finish_state r')
  qed
qed

theorem objective_mutates_results_witness:
  "fst (objective example_algorithm example_results) = Inr (Fin 5)
   \<and> example_results ''g'' = Some (RInts [0, 1, 0, 1])
   \<and> snd (objective example_algorithm example_results) ''g'' = Some (RInts [0, 1, 0, 1])
   \<and> snd (objective example_algorithm example_results) ''features'' = None
   \<and> (\<exists>p. snd (objective example_algorithm example_results) ''penalty'' = Some (RFloat p))"
proof -
  have g: "example_results ''g'' = Some (RInts [0, 1, 0, 1])" by (simp add: example_results_def)
  note frame = objective_mutates_results[of example_algorithm example_results]
  from frame have "snd (objective example_algorithm example_results) ''g'' = example_results ''g''"
    by simp
  with g have a: "snd (objective example_algorithm example_results) ''g'' = Some (RInts [0, 1, 0, 1])"
    by simp
  from frame example_objective_value obtain p where
    "snd (objective example_algorithm example_results)
       = (if is_training example_algorithm
          then example_results(''features'' := None, ''unlabeled_features'' := None)
          else example_results(''features'' := None))(''penalty'' \<mapsto> RFloat p)"
    by blast
  then have "snd (objective example_algorithm example_results) ''features'' = None"
    and "snd (objective example_algorithm example_results) ''penalty'' = Some (RFloat p)"
    by simp_all
  with a g example_objective_value show ?thesis by blast
qed

end
